theory Spec2Isabelle
  imports Main "HOL-Library.Char_ord" "HOL-Library.List_Lexorder" "HOL-Library.Sublist"
begin

section \<open>Data model\<close>

text \<open>
  The container is an HDF5 file with a root group \<open>samples\<close>. An object of the file is a
  dataset or a group; a group has members, each under a link name, and string
  attributes. The members of a group are listed in the order in which h5py enumerates
  them, which is the order of their names as byte strings. Strings are byte strings in
  UTF-8, assumed to hold no NUL byte. All links are hard links. Opening an existing path
  is assumed to succeed and the writes of h5py are assumed not to fail.

  Floating-point values are a type parameter \<open>'f\<close>: nothing here computes with them.
\<close>

datatype 'f dataset = IntArr "int list" | FloatArr "'f list"

fun dlen :: "'f dataset \<Rightarrow> nat" where
  "dlen (IntArr xs) = length xs"
| "dlen (FloatArr xs) = length xs"

fun dtake :: "nat \<Rightarrow> 'f dataset \<Rightarrow> 'f dataset" where
  "dtake n (IntArr xs) = IntArr (take n xs)"
| "dtake n (FloatArr xs) = FloatArr (take n xs)"

datatype 'f node =
    Dataset "'f dataset"
  | Group "(string \<times> 'f node) list" "(string \<times> string) list"

fun members_of :: "'f node \<Rightarrow> (string \<times> 'f node) list" where
  "members_of (Dataset d) = []"
| "members_of (Group ms as) = ms"

fun is_group :: "'f node \<Rightarrow> bool" where
  "is_group (Dataset d) = False"
| "is_group (Group ms as) = True"

text \<open>An HDF5 file: \<open>samples\<close> holds the members of the root group \<open>samples\<close>, and is
  \<open>None\<close> when that group is absent. A path of the file system holds
  \<open>'f h5file option\<close>: \<open>None\<close> when nothing exists there.\<close>

datatype 'f h5file = H5File (samples: "(string \<times> 'f node) list option")

fun sample_groups :: "'f h5file option \<Rightarrow> (string \<times> 'f node) list" where
  "sample_groups None = []"
| "sample_groups (Some (H5File None)) = []"
| "sample_groups (Some (H5File (Some gs))) = gs"

definition sample_keys :: "'f h5file option \<Rightarrow> string list" where
  "sample_keys f = map fst (sample_groups f)"

text \<open>
  A cell of a data frame row is represented by the two things the program observes of it:
  \<open>str(cell)\<close>, and the result of the cast to float (\<open>None\<close> when numpy raises ValueError).
  A row maps column names to cells; \<open>row[c]\<close> raises KeyError when the column is missing.
\<close>

datatype 'f cell = Cell (as_str: string) (as_float: "'f option")

type_synonym 'f row = "(string \<times> 'f cell) list"

text \<open>\<open>H5Error\<close> stands for the exception that h5py raises when a path runs through a
  dataset, and when \<open>create_group\<close> is refused.\<close>

datatype error = KeyError string | ValueError | TypeError | EOFError | ReadError | H5Error

text \<open>The lines written by \<open>print\<close>. The prompt texts of \<open>input\<close> are not recorded.\<close>

datatype 'f msg =
    Processing string
  | SkippingDuplicate string
  | AddedMetadata string string
  | AddedSample string
  | NoDatabase
  | NoSamples
  | ShowTimestamp string
  | ShowWavelengths "'f dataset"
  | ShowAbsorption "'f dataset"
  | ShowTransmission "'f dataset"
  | ShowIntensities "'f dataset"
  | ShowMetadata "(string \<times> string) list"
  | WarningNotFound string

section \<open>Paths of h5py\<close>

text \<open>
  h5py takes the name given to \<open>in\<close>, to \<open>[]\<close> and to \<open>create_group\<close> as a path: it is cut
  at every \<open>/\<close>, and empty components are ignored (doubled and trailing slashes). The
  remaining components are link names, followed one after the other, except the
  component \<open>.\<close>, which stands for the group reached so far.
\<close>

fun components :: "string \<Rightarrow> string \<Rightarrow> string list" where
  "components cur [] = [cur]"
| "components cur (c # cs) =
     (if c = CHR ''/'' then cur # components [] cs else components (cur @ [c]) cs)"

definition link_names :: "string \<Rightarrow> string list" where
  "link_names name = filter (\<lambda>c. c \<noteq> []) (components [] name)"

definition path_components :: "string \<Rightarrow> string list" where
  "path_components name = filter (\<lambda>c. c \<noteq> ''.'') (link_names name)"

text \<open>
  \<open>create_group\<close> needs a name for the new link at the end of the path. A path whose
  last component is \<open>.\<close> gives none: HDF5 then refuses the creation (name already
  exists), after it has created the missing groups on the way.
\<close>

definition creatable :: "string \<Rightarrow> bool" where
  "creatable name = (link_names name \<noteq> [] \<and> last (link_names name) \<noteq> ''.'')"

text \<open>
  Following a path from an object: the object it leads to, \<open>None\<close> when a link on the way
  is missing, and an error when the path goes on below a dataset.
\<close>

fun h5_find :: "'f node \<Rightarrow> string list \<Rightarrow> error + 'f node option" where
  "h5_find n [] = Inr (Some n)"
| "h5_find (Dataset d) (c # cs) = Inl H5Error"
| "h5_find (Group ms as) (c # cs) =
     (case map_of ms c of None \<Rightarrow> Inr None | Some m \<Rightarrow> h5_find m cs)"

text \<open>A new member goes to its place in the order of the names; \<open>set_member\<close> replaces
  the object under a name that is present.\<close>

fun add_member :: "string \<Rightarrow> 'f node \<Rightarrow> (string \<times> 'f node) list \<Rightarrow> (string \<times> 'f node) list" where
  "add_member c n [] = [(c, n)]"
| "add_member c n (p # ps) = (if c < fst p then (c, n) # p # ps else p # add_member c n ps)"

fun set_member :: "string \<Rightarrow> 'f node \<Rightarrow> (string \<times> 'f node) list \<Rightarrow> (string \<times> 'f node) list" where
  "set_member c n [] = []"
| "set_member c n (p # ps) = (if fst p = c then (c, n) # ps else p # set_member c n ps)"

text \<open>
  \<open>create_group\<close> creates the missing groups on the way (h5py sets the property for
  intermediate groups), empty and without attributes. \<open>h5_put p g n\<close> is the object \<open>n\<close>
  after a group was created at the path \<open>p\<close> below it and filled to become \<open>g\<close>; it is
  used for paths that \<open>h5_find\<close> does not find. With the empty group for \<open>g\<close> it is the
  object after the groups on the way were created.
\<close>

fun nest :: "string list \<Rightarrow> 'f node \<Rightarrow> 'f node" where
  "nest [] g = g"
| "nest (c # cs) g = Group [(c, nest cs g)] []"

fun h5_put :: "string list \<Rightarrow> 'f node \<Rightarrow> 'f node \<Rightarrow> 'f node" where
  "h5_put [] g n = n"
| "h5_put (c # cs) g (Dataset d) = Dataset d"
| "h5_put (c # cs) g (Group ms as) =
     (case map_of ms c of
        None \<Rightarrow> Group (add_member c (nest cs g) ms) as
      | Some m \<Rightarrow> Group (set_member c (h5_put cs g m) ms) as)"

text \<open>Both, from the group \<open>samples\<close> with the members \<open>gs\<close>.\<close>

definition find_path :: "(string \<times> 'f node) list \<Rightarrow> string list \<Rightarrow> error + 'f node option" where
  "find_path gs p = h5_find (Group gs []) p"

definition put_path :: "string list \<Rightarrow> 'f node \<Rightarrow> (string \<times> 'f node) list \<Rightarrow> (string \<times> 'f node) list" where
  "put_path p g gs = members_of (h5_put p g (Group gs []))"

text \<open>
  \<open>group[name][:]\<close> for a fixed link name: the array of the dataset under that name.
  Indexing a dataset with a name raises ValueError, slicing a group raises TypeError.
\<close>

fun read_array :: "'f node \<Rightarrow> string \<Rightarrow> error + 'f dataset" where
  "read_array (Dataset d) name = Inl ValueError"
| "read_array (Group ms as) name =
     (case map_of ms name of
        None \<Rightarrow> Inl (KeyError name)
      | Some (Dataset d) \<Rightarrow> Inr d
      | Some (Group ms' as') \<Rightarrow> Inl TypeError)"

section \<open>script.py\<close>

definition AS7341_WAVELENGTHS :: "int list" where
  "AS7341_WAVELENGTHS = [415, 445, 480, 515, 555, 590, 630, 680, 850, 940]"

definition channel_columns :: "string list" where
  "channel_columns = [''415nm_F1'', ''445nm_F2'', ''480nm_F3'', ''515nm_F4'', ''555nm_F5'',
     ''590nm_F6'', ''630nm_F7'', ''680nm_F8'', ''CLEAR'', ''NIR'']"

subsection \<open>Strings read from the console\<close>

text \<open>
  \<open>str.strip()\<close> removes the white space of Unicode at both ends: U+0009 to U+000D,
  U+001C to U+0020, U+0085, U+00A0, U+1680, U+2000 to U+200A, U+2028, U+2029, U+202F,
  U+205F and U+3000, here in UTF-8.
\<close>

definition unicode_spaces :: "string list" where
  "unicode_spaces =
     [[CHR 0x09], [CHR 0x0A], [CHR 0x0B], [CHR 0x0C], [CHR 0x0D],
      [CHR 0x1C], [CHR 0x1D], [CHR 0x1E], [CHR 0x1F], [CHR 0x20],
      [CHR 0xC2, CHR 0x85], [CHR 0xC2, CHR 0xA0], [CHR 0xE1, CHR 0x9A, CHR 0x80],
      [CHR 0xE2, CHR 0x80, CHR 0x80], [CHR 0xE2, CHR 0x80, CHR 0x81], [CHR 0xE2, CHR 0x80, CHR 0x82],
      [CHR 0xE2, CHR 0x80, CHR 0x83], [CHR 0xE2, CHR 0x80, CHR 0x84], [CHR 0xE2, CHR 0x80, CHR 0x85],
      [CHR 0xE2, CHR 0x80, CHR 0x86], [CHR 0xE2, CHR 0x80, CHR 0x87], [CHR 0xE2, CHR 0x80, CHR 0x88],
      [CHR 0xE2, CHR 0x80, CHR 0x89], [CHR 0xE2, CHR 0x80, CHR 0x8A], [CHR 0xE2, CHR 0x80, CHR 0xA8],
      [CHR 0xE2, CHR 0x80, CHR 0xA9], [CHR 0xE2, CHR 0x80, CHR 0xAF], [CHR 0xE2, CHR 0x81, CHR 0x9F],
      [CHR 0xE3, CHR 0x80, CHR 0x80]]"

text \<open>The length of the first of the strings \<open>ws\<close> that \<open>s\<close> starts with, or 0.\<close>

fun match_len :: "string list \<Rightarrow> string \<Rightarrow> nat" where
  "match_len [] s = 0"
| "match_len (w # ws) s =
     (if w \<noteq> [] \<and> take (length w) s = w then length w else match_len ws s)"

function drop_leading :: "string list \<Rightarrow> string \<Rightarrow> string" where
  "drop_leading ws s =
     (if match_len ws s = 0 then s else drop_leading ws (drop (match_len ws s) s))"
  by pat_completeness auto
termination
proof (relation "measure (\<lambda>(ws, s). length s)")
  show "wf (measure (\<lambda>(ws, s). length s))" by simp
next
  fix ws s :: "string list" and t :: string
  have "match_len ws t \<noteq> 0 \<Longrightarrow> t \<noteq> []" for ws
    by (induction ws) (auto split: if_splits)
  then show "match_len ws t \<noteq> 0 \<Longrightarrow> ((ws, drop (match_len ws t) t), (ws, t)) \<in> measure (\<lambda>(ws, s). length s)"
    by auto
qed

definition strip :: "string \<Rightarrow> string" where
  "strip s =
     rev (drop_leading (map rev unicode_spaces) (rev (drop_leading unicode_spaces s)))"

text \<open>\<open>str.lower()\<close>, of which the program only observes whether the result is \<open>y\<close>:
  the capital letters of ASCII are mapped, every other byte is kept.\<close>

definition lower_char :: "char \<Rightarrow> char" where
  "lower_char c = (let n = (of_char c :: nat) in
     if 65 \<le> n \<and> n \<le> 90 then char_of (n + 32) else c)"

definition lower :: "string \<Rightarrow> string" where
  "lower s = map lower_char s"

subsection \<open>add_metadata\<close>

text \<open>
  The console input is the list of the lines still to be read; \<open>input()\<close> on the empty list
  raises EOFError. \<open>add_metadata\<close> touches its sample group only through the attributes:
  the model passes the attributes of the group. \<open>attrs[key] = value\<close> replaces the
  attribute or adds it.
\<close>

fun set_attr :: "string \<Rightarrow> string \<Rightarrow> (string \<times> string) list \<Rightarrow> (string \<times> string) list" where
  "set_attr k v [] = [(k, v)]"
| "set_attr k v (p # ps) = (if fst p = k then (k, v) # ps else p # set_attr k v ps)"

text \<open>The \<open>while True\<close> loop: it returns the attributes, the input left, the lines
  printed, and the error raised, if any.\<close>

fun metadata_loop ::
  "(string \<times> string) list \<Rightarrow> string list
     \<Rightarrow> (string \<times> string) list \<times> string list \<times> 'f msg list \<times> error option" where
  "metadata_loop g [] = (g, [], [], Some EOFError)"
| "metadata_loop g [k] = (if strip k = [] then (g, [], [], None) else (g, [], [], Some EOFError))"
| "metadata_loop g (k # v # inp) =
     (if strip k = [] then (g, v # inp, [], None)
      else (case metadata_loop (set_attr (strip k) (strip v) g) inp of
              (g', inp', ms, e) \<Rightarrow> (g', inp', AddedMetadata (strip k) (strip v) # ms, e)))"

definition add_metadata ::
  "(string \<times> string) list \<Rightarrow> string list
     \<Rightarrow> (string \<times> string) list \<times> string list \<times> 'f msg list \<times> (error + bool)" where
  "add_metadata sample_group inp =
     (case inp of
        [] \<Rightarrow> (sample_group, [], [], Inl EOFError)
      | add_meta # inp1 \<Rightarrow>
          if lower (strip add_meta) = ''y'' then
            (case metadata_loop sample_group inp1 of
               (g', inp', ms, None) \<Rightarrow> (g', inp', ms, Inr True)
             | (g', inp', ms, Some e) \<Rightarrow> (g', inp', ms, Inl e))
          else (sample_group, inp1, [], Inr False))"

subsection \<open>add_samples_from_csv\<close>

text \<open>
  The state of a run: the members of \<open>samples\<close> in the open file, the two local variables
  \<open>added_samples\<close> and \<open>metadata_updates\<close>, the console input left and the lines printed.
  \<open>reports\<close> is a history variable, not a variable of the program: it records, for each
  call of \<open>add_metadata\<close> that returned, the sample and the value returned.
\<close>

record 'f state =
  store :: "(string \<times> 'f node) list"
  added_samples :: "string list"
  metadata_updates :: bool
  stdin :: "string list"
  out :: "'f msg list"
  reports :: "(string \<times> bool) list"

fun lookup_columns :: "'f row \<Rightarrow> string list \<Rightarrow> error + 'f cell list" where
  "lookup_columns row [] = Inr []"
| "lookup_columns row (c # cs) =
     (case map_of row c of
        None \<Rightarrow> Inl (KeyError c)
      | Some v \<Rightarrow> (case lookup_columns row cs of Inl e \<Rightarrow> Inl e | Inr vs \<Rightarrow> Inr (v # vs)))"

fun astype_float :: "'f cell list \<Rightarrow> error + 'f list" where
  "astype_float [] = Inr []"
| "astype_float (c # cs) =
     (case as_float c of
        None \<Rightarrow> Inl ValueError
      | Some x \<Rightarrow> (case astype_float cs of Inl e \<Rightarrow> Inl e | Inr xs \<Rightarrow> Inr (x # xs)))"

definition read_intensities :: "'f row \<Rightarrow> error + 'f list" where
  "read_intensities row =
     (case lookup_columns row channel_columns of Inl e \<Rightarrow> Inl e | Inr cs \<Rightarrow> astype_float cs)"

text \<open>The sample group with its two datasets and the attributes \<open>as\<close>; a new one has
  the attribute \<open>Timestamp\<close>.\<close>

definition sample_group :: "'f list \<Rightarrow> (string \<times> string) list \<Rightarrow> 'f node" where
  "sample_group intensities as =
     Group [(''Intensities'', Dataset (FloatArr intensities)),
            (''Wavelengths'', Dataset (IntArr AS7341_WAVELENGTHS))] as"

definition new_sample_group :: "string \<Rightarrow> 'f list \<Rightarrow> 'f node" where
  "new_sample_group timestamp intensities = sample_group intensities [(''Timestamp'', timestamp)]"

text \<open>
  The body of \<open>for _, row in df.iterrows()\<close>: the error raised, if any, and the state.
  The name \<open>/samples/<timestamp>\<close> is a path: the test \<open>group_name in hdf5_file\<close> follows it
  from the group \<open>samples\<close>, and \<open>create_group\<close> creates the group at its end, or is
  refused and leaves the groups created on the way.
\<close>

definition ingest_row :: "'f row \<Rightarrow> 'f state \<Rightarrow> error option \<times> 'f state" where
  "ingest_row row s =
     (case map_of row ''time'' of
        None \<Rightarrow> (Some (KeyError ''time''), s)
      | Some t \<Rightarrow>
          (case find_path (store s) (path_components (as_str t)) of
             Inl e \<Rightarrow> (Some e, s)
           | Inr (Some n) \<Rightarrow> (None, s\<lparr>out := out s @ [SkippingDuplicate (as_str t)]\<rparr>)
           | Inr None \<Rightarrow>
               (case read_intensities row of
                  Inl e \<Rightarrow> (Some e, s)
                | Inr intensities \<Rightarrow>
                    if \<not> creatable (as_str t) then
                      (Some H5Error,
                       s\<lparr>store := put_path (path_components (as_str t)) (Group [] []) (store s)\<rparr>)
                    else
                    (case add_metadata [(''Timestamp'', as_str t)] (stdin s) of
                       (as, inp, ms, Inl e) \<Rightarrow>
                         (Some e,
                          s\<lparr>store := put_path (path_components (as_str t))
                                        (sample_group intensities as) (store s),
                            stdin := inp, out := out s @ ms\<rparr>)
                     | (as, inp, ms, Inr b) \<Rightarrow>
                         (None,
                          s\<lparr>store := put_path (path_components (as_str t))
                                        (sample_group intensities as) (store s),
                            stdin := inp,
                            metadata_updates := (metadata_updates s \<or> b),
                            added_samples := added_samples s @ [as_str t],
                            out := out s @ ms @ [AddedSample (as_str t)],
                            reports := reports s @ [(as_str t, b)]\<rparr>)))))"

fun ingest_rows :: "'f row list \<Rightarrow> 'f state \<Rightarrow> error option \<times> 'f state" where
  "ingest_rows [] s = (None, s)"
| "ingest_rows (row # rows) s =
     (case ingest_row row s of
        (None, s') \<Rightarrow> ingest_rows rows s'
      | (Some e, s') \<Rightarrow> (Some e, s'))"

text \<open>The body of \<open>for csv_file in csv_files\<close>. \<open>read_csv\<close> is the file system seen through
  \<open>pd.read_csv\<close>: the rows of the file at a path, or the error it raises.\<close>

definition ingest_file ::
  "(string \<Rightarrow> error + 'f row list) \<Rightarrow> string \<Rightarrow> string \<Rightarrow> 'f state \<Rightarrow> error option \<times> 'f state" where
  "ingest_file read_csv data_type csv_file s =
     (if data_type = ''3'' then
        (case read_csv csv_file of
           Inl e \<Rightarrow> (Some e, s\<lparr>out := out s @ [Processing csv_file]\<rparr>)
         | Inr df \<Rightarrow> ingest_rows df (s\<lparr>out := out s @ [Processing csv_file]\<rparr>))
      else (None, s\<lparr>out := out s @ [Processing csv_file]\<rparr>))"

fun ingest_files ::
  "(string \<Rightarrow> error + 'f row list) \<Rightarrow> string \<Rightarrow> string list \<Rightarrow> 'f state \<Rightarrow> error option \<times> 'f state" where
  "ingest_files read_csv data_type [] s = (None, s)"
| "ingest_files read_csv data_type (csv_file # csv_files) s =
     (case ingest_file read_csv data_type csv_file s of
        (None, s') \<Rightarrow> ingest_files read_csv data_type csv_files s'
      | (Some e, s') \<Rightarrow> (Some e, s'))"

text \<open>The state in which the loop starts: the file opened in mode \<open>a\<close> (created when the
  path holds nothing), with the group \<open>samples\<close> created when absent.\<close>

definition initial_state :: "'f h5file option \<Rightarrow> string list \<Rightarrow> 'f state" where
  "initial_state hdf5_file inp =
     \<lparr>store = sample_groups hdf5_file, added_samples = [], metadata_updates = False,
      stdin = inp, out = [], reports = []\<rparr>"

text \<open>
  \<open>add_samples_from_csv\<close> yields the value returned, or the error raised, and the final
  state; \<open>file_after\<close> is the container that the final state leaves at the path.
\<close>

definition add_samples_from_csv ::
  "(string \<Rightarrow> error + 'f row list) \<Rightarrow> string list \<Rightarrow> 'f h5file option \<Rightarrow> string \<Rightarrow> string list
     \<Rightarrow> (error + string list \<times> bool) \<times> 'f state" where
  "add_samples_from_csv read_csv csv_files hdf5_file data_type inp =
     (case ingest_files read_csv data_type csv_files (initial_state hdf5_file inp) of
        (Some e, s) \<Rightarrow> (Inl e, s)
      | (None, s) \<Rightarrow> (Inr (added_samples s, metadata_updates s), s))"

definition file_after :: "'f state \<Rightarrow> 'f h5file option" where
  "file_after s = Some (H5File (Some (store s)))"

subsection \<open>view_samples\<close>

text \<open>What \<open>view_samples\<close> prints for one sample that is a group, with the members \<open>ms\<close>
  and the attributes \<open>as\<close>, or the error it raises there.\<close>

definition view_sample :: "(string \<times> 'f node) list \<Rightarrow> (string \<times> string) list \<Rightarrow> error + 'f msg list" where
  "view_sample ms as =
     (case map_of as ''Timestamp'' of
        None \<Rightarrow> Inl (KeyError ''Timestamp'')
      | Some ts \<Rightarrow>
          (case (if ''Wavelengths'' \<in> set (map fst ms)
                 then (case read_array (Group ms as) ''Wavelengths'' of
                         Inl e \<Rightarrow> Inl e | Inr w \<Rightarrow> Inr [ShowWavelengths (dtake 5 w)])
                 else Inr []) of
             Inl e \<Rightarrow> Inl e
           | Inr m1 \<Rightarrow>
               (case (if ''Absorption'' \<in> set (map fst ms) \<and> ''Transmission'' \<in> set (map fst ms)
                      then (case read_array (Group ms as) ''Absorption'' of
                              Inl e \<Rightarrow> Inl e
                            | Inr a \<Rightarrow>
                                (case read_array (Group ms as) ''Transmission'' of
                                   Inl e \<Rightarrow> Inl e
                                 | Inr t \<Rightarrow> Inr [ShowAbsorption (dtake 5 a), ShowTransmission (dtake 5 t)]))
                      else Inr []) of
                  Inl e \<Rightarrow> Inl e
                | Inr m2 \<Rightarrow>
                    (case (if ''Intensities'' \<in> set (map fst ms)
                           then (case read_array (Group ms as) ''Intensities'' of
                                   Inl e \<Rightarrow> Inl e | Inr i \<Rightarrow> Inr [ShowIntensities (dtake 5 i)])
                           else Inr []) of
                       Inl e \<Rightarrow> Inl e
                     | Inr m3 \<Rightarrow> Inr ([ShowTimestamp ts] @ m1 @ m2 @ m3 @ [ShowMetadata as])))))"

section \<open>plotting.py\<close>

definition list_samples :: "'f h5file option \<Rightarrow> string list \<times> 'f msg list" where
  "list_samples hdf5_file =
     (case hdf5_file of
        None \<Rightarrow> ([], [NoDatabase])
      | Some f \<Rightarrow>
          (case samples f of
             None \<Rightarrow> ([], [NoSamples])
           | Some gs \<Rightarrow> (map fst gs, [])))"

text \<open>
  The path \<open>samples/<sample>\<close> in the file: nothing is found when the group \<open>samples\<close> is
  absent, and otherwise the path of the sample is followed from that group.
\<close>

definition find_sample :: "'f h5file \<Rightarrow> string \<Rightarrow> error + 'f node option" where
  "find_sample f sample =
     (case samples f of
        None \<Rightarrow> Inr None
      | Some gs \<Rightarrow> find_path gs (path_components sample))"

text \<open>
  One call of \<open>ax.plot(wavelengths, absorption, label=sample)\<close>: matplotlib raises
  ValueError when the two arrays differ in length.
\<close>

datatype 'f line = Line (label: string) (xdata: "'f dataset") (ydata: "'f dataset")

text \<open>
  The loop \<open>for sample in selected_samples\<close>, with the lines drawn so far and the lines
  printed so far. It yields the lines of the figure, or the error raised.
\<close>

fun plot_loop ::
  "'f h5file \<Rightarrow> string list \<Rightarrow> 'f line list \<Rightarrow> 'f msg list
     \<Rightarrow> (error + 'f line list) \<times> 'f msg list" where
  "plot_loop f [] handles ms = (Inr handles, ms)"
| "plot_loop f (sample # rest) handles ms =
     (case find_sample f sample of
        Inl e \<Rightarrow> (Inl e, ms)
      | Inr None \<Rightarrow> plot_loop f rest handles (ms @ [WarningNotFound sample])
      | Inr (Some g) \<Rightarrow>
          (case read_array g ''Wavelengths'' of
             Inl e \<Rightarrow> (Inl e, ms)
           | Inr wavelengths \<Rightarrow>
               (case read_array g ''Absorption'' of
                  Inl e \<Rightarrow> (Inl e, ms)
                | Inr absorption \<Rightarrow>
                    if dlen wavelengths = dlen absorption
                    then plot_loop f rest (handles @ [Line sample wavelengths absorption]) ms
                    else (Inl ValueError, ms))))"

text \<open>
  \<open>plot_samples\<close> up to \<open>plt.show()\<close>: \<open>Inr None\<close> when it returns before a figure is made,
  \<open>Inr (Some lines)\<close> when the figure with these lines is shown. The legend and its
  click handler are not modelled.
\<close>

definition plot_samples ::
  "'f h5file option \<Rightarrow> string list \<Rightarrow> (error + 'f line list option) \<times> 'f msg list" where
  "plot_samples hdf5_file selected_samples =
     (case hdf5_file of
        None \<Rightarrow> (Inr None, [NoDatabase])
      | Some f \<Rightarrow>
          (case plot_loop f selected_samples [] [] of
             (Inl e, ms) \<Rightarrow> (Inl e, ms)
           | (Inr handles, ms) \<Rightarrow> (Inr (Some handles), ms)))"

section \<open>Concrete inputs\<close>

text \<open>A row of an AS7341 file with all its columns, one without the column \<open>NIR\<close>, and
  files holding such rows.\<close>

definition as7341_row :: "string \<Rightarrow> int row" where
  "as7341_row t =
     [(''time'', Cell t None),
      (''415nm_F1'', Cell ''11'' (Some 11)), (''445nm_F2'', Cell ''12'' (Some 12)),
      (''480nm_F3'', Cell ''13'' (Some 13)), (''515nm_F4'', Cell ''14'' (Some 14)),
      (''555nm_F5'', Cell ''15'' (Some 15)), (''590nm_F6'', Cell ''16'' (Some 16)),
      (''630nm_F7'', Cell ''17'' (Some 17)), (''680nm_F8'', Cell ''18'' (Some 18)),
      (''CLEAR'', Cell ''19'' (Some 19)), (''NIR'', Cell ''20'' (Some 20))]"

definition row_without_nir :: "string \<Rightarrow> int row" where
  "row_without_nir t = butlast (as7341_row t)"

definition example_fs :: "string \<Rightarrow> error + int row list" where
  "example_fs path =
     (if path = ''good.csv'' then Inr [as7341_row ''T1'', as7341_row ''T2'', as7341_row ''T3'']
      else if path = ''bad.csv'' then Inr [row_without_nir ''T0'']
      else if path = ''twice.csv'' then Inr [as7341_row ''T1'', as7341_row ''T1'']
      else if path = ''dates.csv'' then Inr [as7341_row ''2024/01/02'', as7341_row ''2024/01/03'']
      else Inl ReadError)"

text \<open>The group written for \<open>as7341_row t\<close> when no metadata is added.\<close>

definition written_group :: "string \<Rightarrow> int node" where
  "written_group t = new_sample_group t [11, 12, 13, 14, 15, 16, 17, 18, 19, 20]"

definition stored_T2 :: "int h5file option" where
  "stored_T2 = Some (H5File (Some [(''T2'', new_sample_group ''T2'' [1, 2, 3, 4, 5, 6, 7, 8, 9, 10])]))"

definition spectro_group :: "int node" where
  "spectro_group =
     Group [(''Absorption'', Dataset (FloatArr [1, 2])), (''Transmission'', Dataset (FloatArr [3, 4])),
            (''Wavelengths'', Dataset (IntArr [400, 500]))]
       [(''Timestamp'', ''S1'')]"


section \<open>Specification predicates\<close>

text \<open>The path is found from the group \<open>samples\<close> with the members \<open>gs\<close>.\<close>

definition resolves :: "(string \<times> 'f node) list \<Rightarrow> string list \<Rightarrow> bool" where
  "resolves gs p = (case find_path gs p of Inr (Some n) \<Rightarrow> True | _ \<Rightarrow> False)"

text \<open>The paths that a sample group at the path \<open>p\<close> occupies: the groups on the way, the
  group itself and its two datasets.\<close>

definition sample_path :: "string list \<Rightarrow> string list \<Rightarrow> bool" where
  "sample_path p q = (prefix q p \<or> q = p @ [''Intensities''] \<or> q = p @ [''Wavelengths''])"

text \<open>
  A group as \<open>add_samples_from_csv\<close> writes it for a row: the dataset \<open>Wavelengths\<close> with
  the table, a dataset \<open>Intensities\<close> of ten values, and the attribute \<open>Timestamp\<close>. A bare
  group has no attribute and no dataset: the groups that \<open>create_group\<close> creates on the
  way to a sample are bare.
\<close>

definition sample_like :: "'f node \<Rightarrow> bool" where
  "sample_like n =
     (case n of
        Dataset d \<Rightarrow> False
      | Group ms as \<Rightarrow>
          map_of ms ''Wavelengths'' = Some (Dataset (IntArr AS7341_WAVELENGTHS))
          \<and> (case map_of ms ''Intensities'' of
                Some (Dataset (FloatArr xs)) \<Rightarrow> length xs = 10
              | _ \<Rightarrow> False)
          \<and> ''Timestamp'' \<in> set (map fst as))"

definition bare_group :: "'f node \<Rightarrow> bool" where
  "bare_group n =
     (case n of Dataset d \<Rightarrow> False | Group ms as \<Rightarrow> as = [] \<and> list_all (\<lambda>km. is_group (snd km)) ms)"

text \<open>An object of the container is kept: a dataset as it is, a group with its
  attributes and with all its member names.\<close>

definition keeps :: "'f node \<Rightarrow> 'f node \<Rightarrow> bool" where
  "keeps n n' =
     (case n of
        Dataset d \<Rightarrow> n' = Dataset d
      | Group ms as \<Rightarrow>
          (case n' of
             Dataset d \<Rightarrow> False
           | Group ms' as' \<Rightarrow> as' = as \<and> set (map fst ms) \<subseteq> set (map fst ms')))"

text \<open>The key of a row, and the rows of a batch, file after file.\<close>

definition row_key :: "'f row \<Rightarrow> string" where
  "row_key row = (case map_of row ''time'' of None \<Rightarrow> [] | Some t \<Rightarrow> as_str t)"

definition batch_rows :: "(string \<Rightarrow> error + 'f row list) \<Rightarrow> string list \<Rightarrow> 'f row list" where
  "batch_rows read_csv csv_files =
     concat (map (\<lambda>p. case read_csv p of Inl e \<Rightarrow> [] | Inr df \<Rightarrow> df) csv_files)"

text \<open>Every row that has a key has a key with the property \<open>K\<close>.\<close>

definition keys_satisfy :: "(string \<Rightarrow> bool) \<Rightarrow> 'f row list \<Rightarrow> bool" where
  "keys_satisfy K rows =
     list_all (\<lambda>row. case map_of row ''time'' of None \<Rightarrow> True | Some t \<Rightarrow> K (as_str t)) rows"

text \<open>A key that is one link name: not empty, not \<open>.\<close>, and without \<open>/\<close>.\<close>

definition plain_key :: "string \<Rightarrow> bool" where
  "plain_key k = (k \<noteq> [] \<and> k \<noteq> ''.'' \<and> CHR ''/'' \<notin> set k)"

text \<open>
  The keys that a list of row keys inserts, in the words of the specification: the keys
  in order, leaving out every key whose path is occupied already, by the container as
  it was or by a sample inserted before. \<open>R\<close> tells which paths are occupied;
  \<open>occupied_after\<close> is \<open>R\<close> after the keys.
\<close>

fun fresh_keys :: "(string list \<Rightarrow> bool) \<Rightarrow> string list \<Rightarrow> string list" where
  "fresh_keys R [] = []"
| "fresh_keys R (k # ks) =
     (if R (path_components k) then fresh_keys R ks
      else k # fresh_keys (\<lambda>q. R q \<or> sample_path (path_components k) q) ks)"

fun occupied_after :: "(string list \<Rightarrow> bool) \<Rightarrow> string list \<Rightarrow> string list \<Rightarrow> bool" where
  "occupied_after R [] = R"
| "occupied_after R (k # ks) =
     (if R (path_components k) then occupied_after R ks
      else occupied_after (\<lambda>q. R q \<or> sample_path (path_components k) q) ks)"

text \<open>A sample group, as the ingestion writes it, is found at the path.\<close>

definition sample_at :: "(string \<times> 'f node) list \<Rightarrow> string list \<Rightarrow> bool" where
  "sample_at gs q = (case find_path gs q of Inr (Some n) \<Rightarrow> sample_like n | _ \<Rightarrow> False)"

text \<open>
  From \<open>s\<close> to \<open>s'\<close> the rows with the keys \<open>ks\<close> were ingested: the fresh keys were
  appended to \<open>added_samples\<close>, \<open>add_metadata\<close> was called once for each of them and the
  flag is the disjunction of the values it returned, the occupied paths are the ones
  expected, a sample group is found at the path of each fresh key, and sample groups
  found before are still found. When the keys are link names, each fresh key is a new
  member of \<open>samples\<close>.
\<close>

definition inserts :: "string list \<Rightarrow> 'f state \<Rightarrow> 'f state \<Rightarrow> bool" where
  "inserts ks s s' =
     (added_samples s' = added_samples s @ fresh_keys (resolves (store s)) ks
      \<and> (\<exists>rs. reports s' = reports s @ rs
            \<and> map fst rs = fresh_keys (resolves (store s)) ks
            \<and> metadata_updates s' = (metadata_updates s \<or> True \<in> set (map snd rs)))
      \<and> resolves (store s') = occupied_after (resolves (store s)) ks
      \<and> (\<forall>k \<in> set (fresh_keys (resolves (store s)) ks). sample_at (store s') (path_components k))
      \<and> (\<forall>q. sample_at (store s) q \<longrightarrow> sample_at (store s') q)
      \<and> (list_all plain_key ks \<longrightarrow>
            length (store s') = length (store s) + length (fresh_keys (resolves (store s)) ks)
            \<and> set (map fst (store s')) = set (map fst (store s)) \<union> set (fresh_keys (resolves (store s)) ks)))"

text \<open>
  A batch that the loop can ingest to its end: every file can be read, every row has its
  time and its ten channel columns with values that cast to float, and the operator
  declines metadata at each prompt.
\<close>

definition readable :: "(string \<Rightarrow> error + 'f row list) \<Rightarrow> string \<Rightarrow> bool" where
  "readable read_csv p = (case read_csv p of Inl e \<Rightarrow> False | Inr df \<Rightarrow> True)"

definition well_formed_row :: "'f row \<Rightarrow> bool" where
  "well_formed_row row =
     (case map_of row ''time'' of
        None \<Rightarrow> False
      | Some t \<Rightarrow> (case read_intensities row of Inl e \<Rightarrow> False | Inr xs \<Rightarrow> True))"

definition declines :: "string \<Rightarrow> bool" where
  "declines a = (lower (strip a) \<noteq> ''y'')"

text \<open>A group holds the wavelengths, the signal and the attribute \<open>Timestamp\<close>.\<close>

definition fully_written :: "'f node \<Rightarrow> bool" where
  "fully_written n =
     (case n of
        Dataset d \<Rightarrow> False
      | Group ms as \<Rightarrow>
          ''Wavelengths'' \<in> set (map fst ms) \<and> ''Intensities'' \<in> set (map fst ms)
          \<and> ''Timestamp'' \<in> set (map fst as))"

text \<open>The path of the key of the row is found in the store with the members \<open>gs\<close>.\<close>

definition stored_row :: "(string \<times> 'f node) list \<Rightarrow> 'f row \<Rightarrow> bool" where
  "stored_row gs row =
     (case map_of row ''time'' of None \<Rightarrow> False | Some t \<Rightarrow> resolves gs (path_components (as_str t)))"

text \<open>What a run prints when it skips every row of every file.\<close>

definition skip_log :: "(string \<Rightarrow> error + 'f row list) \<Rightarrow> string list \<Rightarrow> 'f msg list" where
  "skip_log read_csv csv_files =
     concat (map (\<lambda>p. Processing p # map (\<lambda>row. SkippingDuplicate (row_key row)) (batch_rows read_csv [p]))
       csv_files)"


section \<open>Members of a group\<close>

lemma map_of_add_member:
  "c \<notin> fst ` set ms \<Longrightarrow> map_of (add_member c n ms) = (map_of ms)(c \<mapsto> n)"
  by (induction ms) (auto simp: fun_eq_iff)

lemma map_of_set_member:
  "map_of ms c = Some m \<Longrightarrow> map_of (set_member c n ms) = (map_of ms)(c \<mapsto> n)"
  by (induction ms) (auto simp: fun_eq_iff)

lemma names_add_member: "fst ` set (add_member c n ms) = insert c (fst ` set ms)"
  by (induction ms) auto

lemma names_set_member: "map fst (set_member c n ms) = map fst ms"
  by (induction ms) auto

lemma length_add_member: "length (add_member c n ms) = Suc (length ms)"
  by (induction ms) auto

lemma count_add_member:
  "count_list (map fst (add_member c n ms)) k = count_list (map fst ms) k + (if k = c then 1 else 0)"
  by (induction ms) auto

lemma sorted_add_member: "sorted (map fst ms) \<Longrightarrow> sorted (map fst (add_member c n ms))"
proof (induction ms)
  case Nil
  then show ?case by simp
next
  case (Cons p ps)
  have s: "set (map fst (add_member c n ps)) = insert c (set (map fst ps))"
    using names_add_member[of c n ps] by simp
  from Cons show ?case
    by (auto simp: s simp del: set_map)
qed

lemma map_of_None_names: "map_of ms c = None \<longleftrightarrow> c \<notin> fst ` set ms"
  by (simp add: map_of_eq_None_iff)

section \<open>Following a path after a group was created\<close>

lemma h5_find_append:
  "h5_find n (p @ r) =
     (case h5_find n p of Inl e \<Rightarrow> Inl e | Inr None \<Rightarrow> Inr None | Inr (Some m) \<Rightarrow> h5_find m r)"
  by (induction n p rule: h5_find.induct) (auto split: option.splits)

lemma h5_find_nest:
  "h5_find (nest cs g) ds =
     (if strict_prefix ds cs then Inr (Some (nest (drop (length ds) cs) g))
      else if prefix cs ds then h5_find g (drop (length cs) ds)
      else Inr None)"
proof (induction cs arbitrary: ds)
  case Nil
  then show ?case by simp
next
  case (Cons c cs)
  show ?case
  proof (cases ds)
    case Nil
    then show ?thesis by simp
  next
    case (Cons d ds')
    then show ?thesis using Cons.IH[of ds'] by (auto simp: strict_prefix_def)
  qed
qed

text \<open>The master equation: where a path leads after \<open>h5_put\<close>.\<close>

lemma h5_find_put:
  "h5_find t p = Inr None \<Longrightarrow>
   h5_find (h5_put p g t) q =
     (if strict_prefix q p then
        (case h5_find t q of
           Inr (Some n) \<Rightarrow> Inr (Some (h5_put (drop (length q) p) g n))
         | _ \<Rightarrow> Inr (Some (nest (drop (length q) p) g)))
      else if prefix p q then h5_find g (drop (length p) q)
      else h5_find t q)"
proof (induction p arbitrary: t q)
  case Nil
  then show ?case by simp
next
  case (Cons c cs)
  from Cons.prems obtain ms as where t: "t = Group ms as" by (cases t) auto
  show ?case
  proof (cases q)
    case Nil
    then show ?thesis by (simp add: t)
  next
    case q: (Cons d ds)
    show ?thesis unfolding q
    proof (cases "d = c")
      case False
      have "map_of (members_of (h5_put (c # cs) g t)) d = map_of ms d"
        using False by (auto simp: t map_of_add_member map_of_set_member map_of_None_names split: option.splits)
      moreover have "\<exists>ms'. h5_put (c # cs) g t = Group ms' as"
        by (auto simp: t split: option.splits)
      ultimately show "h5_find (h5_put (c # cs) g t) (d # ds) =
        (if strict_prefix (d # ds) (c # cs) then
           (case h5_find t (d # ds) of
              Inr (Some n) \<Rightarrow> Inr (Some (h5_put (drop (length (d # ds)) (c # cs)) g n))
            | _ \<Rightarrow> Inr (Some (nest (drop (length (d # ds)) (c # cs)) g)))
         else if prefix (c # cs) (d # ds) then h5_find g (drop (length (c # cs)) (d # ds))
         else h5_find t (d # ds))"
        using False by (auto simp: t strict_prefix_def)
    next
      case True
      show "h5_find (h5_put (c # cs) g t) (d # ds) =
        (if strict_prefix (d # ds) (c # cs) then
           (case h5_find t (d # ds) of
              Inr (Some n) \<Rightarrow> Inr (Some (h5_put (drop (length (d # ds)) (c # cs)) g n))
            | _ \<Rightarrow> Inr (Some (nest (drop (length (d # ds)) (c # cs)) g)))
         else if prefix (c # cs) (d # ds) then h5_find g (drop (length (c # cs)) (d # ds))
         else h5_find t (d # ds))"
        unfolding True
      proof (cases "map_of ms c")
        case None
        then have nin: "c \<notin> fst ` set ms" by (simp add: map_of_None_names)
        have "h5_find (h5_put (c # cs) g t) (c # ds) = h5_find (nest cs g) ds"
          using None by (simp add: t map_of_add_member[OF nin])
        then show "h5_find (h5_put (c # cs) g t) (c # ds) =
          (if strict_prefix (c # ds) (c # cs) then
             (case h5_find t (c # ds) of
                Inr (Some n) \<Rightarrow> Inr (Some (h5_put (drop (length (c # ds)) (c # cs)) g n))
              | _ \<Rightarrow> Inr (Some (nest (drop (length (c # ds)) (c # cs)) g)))
           else if prefix (c # cs) (c # ds) then h5_find g (drop (length (c # cs)) (c # ds))
           else h5_find t (c # ds))"
          using None by (simp add: t h5_find_nest strict_prefix_def)
      next
        case (Some m)
        with Cons.prems have m: "h5_find m cs = Inr None" by (simp add: t)
        have "h5_find (h5_put (c # cs) g t) (c # ds) = h5_find (h5_put cs g m) ds"
          using Some by (simp add: t map_of_set_member)
        then show "h5_find (h5_put (c # cs) g t) (c # ds) =
          (if strict_prefix (c # ds) (c # cs) then
             (case h5_find t (c # ds) of
                Inr (Some n) \<Rightarrow> Inr (Some (h5_put (drop (length (c # ds)) (c # cs)) g n))
              | _ \<Rightarrow> Inr (Some (nest (drop (length (c # ds)) (c # cs)) g)))
           else if prefix (c # cs) (c # ds) then h5_find g (drop (length (c # cs)) (c # ds))
           else h5_find t (c # ds))"
          using Cons.IH[OF m, of ds] Some
          by (simp add: t strict_prefix_def cong: sum.case_cong option.case_cong)
      qed
    qed
  qed
qed

section \<open>The store after a sample group was created\<close>

lemma h5_put_group: "\<exists>ms'. h5_put p g (Group ms as) = Group ms' as"
  by (cases p) (auto split: option.splits)

lemma group_put_path: "Group (put_path p g gs) [] = h5_put p g (Group gs [])"
  using h5_put_group[of p g gs "[]"] by (auto simp: put_path_def)

lemma find_put_path:
  assumes "find_path gs p = Inr None"
  shows "find_path (put_path p g gs) q =
     (if strict_prefix q p then
        (case find_path gs q of
           Inr (Some n) \<Rightarrow> Inr (Some (h5_put (drop (length q) p) g n))
         | _ \<Rightarrow> Inr (Some (nest (drop (length q) p) g)))
      else if prefix p q then h5_find g (drop (length p) q)
      else find_path gs q)"
  using h5_find_put[of "Group gs []" p g q] assms
  by (simp add: find_path_def group_put_path)

lemma find_path_extension:
  "find_path gs p = Inr None \<Longrightarrow> prefix p q \<Longrightarrow> find_path gs q = Inr None"
  by (auto simp: find_path_def prefix_def h5_find_append)

lemma find_path_rest:
  assumes "find_path gs p = Inr None" "strict_prefix q p" "find_path gs q = Inr (Some n)"
  shows "h5_find n (drop (length q) p) = Inr None \<and> drop (length q) p \<noteq> []"
proof -
  from assms(2) obtain r where r: "p = q @ r" "r \<noteq> []" by (auto simp: strict_prefix_def prefix_def)
  with assms(1,3) show ?thesis by (simp add: find_path_def h5_find_append)
qed

lemma h5_find_sample_group:
  "h5_find (sample_group xs as) r =
     (if r = [] then Inr (Some (sample_group xs as))
      else if r = [''Intensities''] then Inr (Some (Dataset (FloatArr xs)))
      else if r = [''Wavelengths''] then Inr (Some (Dataset (IntArr AS7341_WAVELENGTHS)))
      else if hd r = ''Intensities'' \<or> hd r = ''Wavelengths'' then Inl H5Error
      else Inr None)"
proof (cases r)
  case Nil
  then show ?thesis by simp
next
  case (Cons c cs)
  then show ?thesis by (cases cs) (auto simp: sample_group_def)
qed

lemma resolves_put_path:
  assumes "find_path gs p = Inr None"
  shows "resolves (put_path p (sample_group xs as) gs) q = (resolves gs q \<or> sample_path p q)"
proof (cases "strict_prefix q p")
  case True
  then show ?thesis
    by (auto simp: resolves_def find_put_path[OF assms] sample_path_def strict_prefix_def
        split: sum.splits option.splits)
next
  case False
  show ?thesis
  proof (cases "prefix p q")
    case True
    then obtain r where r: "q = p @ r" by (auto simp: prefix_def)
    from find_path_extension[OF assms True] have "\<not> resolves gs q" by (simp add: resolves_def)
    moreover have "sample_path p q \<longleftrightarrow> r = [] \<or> r = [''Intensities''] \<or> r = [''Wavelengths'']"
      by (auto simp: sample_path_def r)
    ultimately show ?thesis using False True
      by (auto simp: resolves_def find_put_path[OF assms] r h5_find_sample_group)
  next
    case np: False
    with False have "\<not> sample_path p q"
      by (auto simp: sample_path_def strict_prefix_def)
    with False np show ?thesis by (simp add: resolves_def find_put_path[OF assms])
  qed
qed

lemma h5_find_empty_group:
  "h5_find (Group [] []) r = (if r = [] then Inr (Some (Group [] [])) else Inr None)"
  by (cases r) simp_all

lemma resolves_put_empty:
  assumes "find_path gs p = Inr None"
  shows "resolves (put_path p (Group [] []) gs) q = (resolves gs q \<or> prefix q p)"
proof (cases "strict_prefix q p")
  case True
  then show ?thesis
    by (auto simp: resolves_def find_put_path[OF assms] strict_prefix_def
        split: sum.splits option.splits)
next
  case False
  show ?thesis
  proof (cases "prefix p q")
    case True
    then obtain r where r: "q = p @ r" by (auto simp: prefix_def)
    from find_path_extension[OF assms True] have "\<not> resolves gs q" by (simp add: resolves_def)
    then show ?thesis using False True
      by (auto simp: resolves_def find_put_path[OF assms] r h5_find_empty_group)
  next
    case np: False
    with False have "\<not> prefix q p" by (auto simp: strict_prefix_def)
    with False np show ?thesis by (simp add: resolves_def find_put_path[OF assms])
  qed
qed

lemma find_put_path_new: "find_path gs p = Inr None \<Longrightarrow> find_path (put_path p g gs) p = Inr (Some g)"
  by (simp add: find_put_path)

section \<open>What a created group leaves as it was\<close>

lemma keeps_refl: "keeps n n"
  by (cases n) (simp_all add: keeps_def)

lemma keeps_trans: "keeps a b \<Longrightarrow> keeps b c \<Longrightarrow> keeps a c"
  by (cases a; cases b; cases c) (auto simp: keeps_def)

lemma keeps_h5_put: "keeps n (h5_put r g n)"
proof (cases r)
  case Nil
  then show ?thesis by (simp add: keeps_refl)
next
  case (Cons c cs)
  show ?thesis
  proof (cases n)
    case (Dataset d)
    then show ?thesis by (simp add: Cons keeps_def)
  next
    case (Group ms as)
    then show ?thesis
      by (auto simp: Cons keeps_def names_add_member names_set_member split: option.splits)
  qed
qed

lemma kept_after_put:
  assumes "find_path gs p = Inr None" "find_path gs q = Inr (Some n)"
  shows "\<exists>n'. find_path (put_path p g gs) q = Inr (Some n') \<and> keeps n n'"
proof (cases "strict_prefix q p")
  case True
  then show ?thesis using assms by (simp add: find_put_path keeps_h5_put)
next
  case False
  from assms have "\<not> prefix p q" using find_path_extension[OF assms(1)] by fastforce
  with False assms show ?thesis by (simp add: find_put_path keeps_refl)
qed

lemma sample_like_sample_group:
  "length xs = 10 \<Longrightarrow> ''Timestamp'' \<in> fst ` set as \<Longrightarrow> sample_like (sample_group xs as)"
  by (simp add: sample_like_def sample_group_def)

lemma bare_group_nest: "r \<noteq> [] \<Longrightarrow> is_group g \<Longrightarrow> bare_group (nest r g)"
proof (cases r)
  case Nil
  then show "r \<noteq> [] \<Longrightarrow> is_group g \<Longrightarrow> bare_group (nest r g)" by simp
next
  case (Cons c cs)
  have "is_group (nest cs g)" if "is_group g" using that by (cases cs) simp_all
  then show "r \<noteq> [] \<Longrightarrow> is_group g \<Longrightarrow> bare_group (nest r g)"
    by (simp add: Cons bare_group_def)
qed

lemma is_group_nest: "is_group g \<Longrightarrow> is_group (nest r g)"
  by (cases r) simp_all

lemma is_group_h5_put: "is_group n \<Longrightarrow> is_group (h5_put r g n)"
  by (cases n; cases r) (auto split: option.splits)

lemma list_all_add_member:
  "list_all P (add_member c n ms) = (P (c, n) \<and> list_all P ms)"
  by (induction ms) auto

lemma list_all_set_member:
  "list_all P ms \<Longrightarrow> P (c, n) \<Longrightarrow> list_all P (set_member c n ms)"
  by (induction ms) auto

lemma map_of_is_group:
  "list_all (\<lambda>km. is_group (snd km)) ms \<Longrightarrow> map_of ms c = Some m \<Longrightarrow> is_group m"
  by (induction ms) (auto split: if_splits)

text \<open>A sample group and a bare group stay what they are when a group is created below
  them.\<close>

lemma sample_like_h5_put:
  assumes "sample_like n" "h5_find n r = Inr None"
  shows "sample_like (h5_put r g n)"
proof (cases r)
  case Nil
  with assms show ?thesis by simp
next
  case (Cons c cs)
  from assms(1) obtain ms as where n: "n = Group ms as" by (cases n) (simp_all add: sample_like_def)
  from assms(1) n obtain xs where w: "map_of ms ''Wavelengths'' = Some (Dataset (IntArr AS7341_WAVELENGTHS))"
    and i: "map_of ms ''Intensities'' = Some (Dataset (FloatArr xs))" "length xs = 10"
    and t: "''Timestamp'' \<in> set (map fst as)"
    by (auto simp: sample_like_def split: option.splits node.splits dataset.splits)
  have cw: "c \<noteq> ''Wavelengths''"
    using assms(2) w by (cases cs) (auto simp: n Cons)
  have ci: "c \<noteq> ''Intensities''"
    using assms(2) i by (cases cs) (auto simp: n Cons)
  show ?thesis
  proof (cases "map_of ms c")
    case None
    then have "c \<notin> fst ` set ms" by (simp add: map_of_None_names)
    then show ?thesis using None w i t cw ci
      by (simp add: n Cons sample_like_def map_of_add_member)
  next
    case (Some m)
    then show ?thesis using w i t cw ci
      by (simp add: n Cons sample_like_def map_of_set_member)
  qed
qed

lemma bare_group_h5_put:
  assumes "bare_group n" "h5_find n r = Inr None" "is_group g"
  shows "bare_group (h5_put r g n)"
proof (cases r)
  case Nil
  with assms show ?thesis by simp
next
  case (Cons c cs)
  from assms(1) obtain ms where n: "n = Group ms []" and all: "list_all (\<lambda>km. is_group (snd km)) ms"
    by (cases n) (simp_all add: bare_group_def)
  show ?thesis
  proof (cases "map_of ms c")
    case None
    then show ?thesis using all assms(3)
      by (simp add: n Cons bare_group_def list_all_add_member is_group_nest)
  next
    case (Some m)
    from map_of_is_group[OF all Some] have "is_group (h5_put cs g m)" by (rule is_group_h5_put)
    then show ?thesis using Some all
      by (simp add: n Cons bare_group_def list_all_set_member)
  qed
qed

text \<open>Every object found after the group was created, at a path that led nowhere
  before, is the new sample group, one of its datasets, or a bare group on the way.\<close>

lemma created_after_put:
  assumes "find_path gs p = Inr None" "\<not> resolves gs q"
    and "find_path (put_path p (sample_group xs as) gs) q = Inr (Some n')"
  shows "(strict_prefix q p \<and> n' = nest (drop (length q) p) (sample_group xs as))
       \<or> (q = p \<and> n' = sample_group xs as)
       \<or> (\<exists>d. n' = Dataset d)"
proof (cases "strict_prefix q p")
  case True
  with assms show ?thesis
    by (auto simp: find_put_path resolves_def split: sum.splits option.splits)
next
  case False
  show ?thesis
  proof (cases "prefix p q")
    case True
    then obtain r where r: "q = p @ r" by (auto simp: prefix_def)
    from assms(3) False True have "h5_find (sample_group xs as) r = Inr (Some n')"
      by (simp add: find_put_path[OF assms(1)] r)
    then show ?thesis by (auto simp: r h5_find_sample_group split: if_splits)
  next
    case np: False
    with False assms show ?thesis by (simp add: find_put_path resolves_def)
  qed
qed

section \<open>The names of the samples\<close>

lemma put_path_names:
  "put_path (c # cs) g gs =
     (case map_of gs c of
        None \<Rightarrow> add_member c (nest cs g) gs
      | Some m \<Rightarrow> set_member c (h5_put cs g m) gs)"
  by (simp add: put_path_def split: option.splits)

text \<open>The members stay in the order of their names.\<close>

lemma sorted_put_path: "sorted (map fst gs) \<Longrightarrow> sorted (map fst (put_path p g gs))"
proof (cases p)
  case Nil
  then show "sorted (map fst gs) \<Longrightarrow> sorted (map fst (put_path p g gs))" by (simp add: put_path_def)
next
  case (Cons c cs)
  then show "sorted (map fst gs) \<Longrightarrow> sorted (map fst (put_path p g gs))"
    by (simp add: put_path_names names_set_member sorted_add_member split: option.splits)
qed

lemma count_put_path:
  assumes "find_path gs p = Inr None"
  shows "count_list (map fst (put_path p g gs)) k
           = count_list (map fst gs) k + (if p \<noteq> [] \<and> k = hd p \<and> k \<notin> set (map fst gs) then 1 else 0)"
proof (cases p)
  case Nil
  with assms show ?thesis by (simp add: find_path_def)
next
  case (Cons c cs)
  show ?thesis
  proof (cases "map_of gs c")
    case None
    then have "c \<notin> fst ` set gs" by (simp add: map_of_None_names)
    then show ?thesis using None by (auto simp: Cons put_path_names count_add_member)
  next
    case (Some m)
    then have "c \<in> fst ` set gs" by (metis map_of_None_names option.distinct(1))
    then show ?thesis using Some by (auto simp: Cons put_path_names names_set_member)
  qed
qed

section \<open>One row\<close>

lemma lookup_columns_length: "lookup_columns row cs = Inr vs \<Longrightarrow> length vs = length cs"
  by (induction cs arbitrary: vs) (auto split: option.splits sum.splits)

lemma astype_float_length: "astype_float cs = Inr xs \<Longrightarrow> length xs = length cs"
  by (induction cs arbitrary: xs) (auto split: option.splits sum.splits)

lemma read_intensities_length:
  assumes "read_intensities row = Inr xs"
  shows "length xs = 10"
proof -
  from assms obtain cs where c: "lookup_columns row channel_columns = Inr cs"
    and f: "astype_float cs = Inr xs"
    by (auto simp: read_intensities_def split: sum.splits)
  from lookup_columns_length[OF c] astype_float_length[OF f] show ?thesis
    by (simp add: channel_columns_def)
qed

lemma set_attr_keys: "fst ` set (set_attr k v al) = insert k (fst ` set al)"
  by (induction al) auto

lemma metadata_loop_keeps:
  "metadata_loop g inp = (g', inp', ms :: 'f msg list, e) \<Longrightarrow> fst ` set g \<subseteq> fst ` set g'"
proof (induction g inp arbitrary: g' inp' ms e rule: metadata_loop.induct)
  case (1 g)
  then show ?case by simp
next
  case (2 g k)
  then show ?case by (simp split: if_splits)
next
  case (3 g k v inp)
  show ?case
  proof (cases "strip k = []")
    case True
    with 3(2) show ?thesis by simp
  next
    case False
    obtain g1 i1 m1 e1 where r: "metadata_loop (set_attr (strip k) (strip v) g) inp = (g1, i1, m1 :: 'f msg list, e1)"
      by (metis prod_cases4)
    with 3(2) False have "g' = g1" by simp
    with 3(1)[OF False r] show ?thesis by (auto simp: set_attr_keys)
  qed
qed

lemma add_metadata_keeps:
  "add_metadata g inp = (g', inp', ms, r) \<Longrightarrow> fst ` set g \<subseteq> fst ` set g'"
  by (auto simp: add_metadata_def split: list.splits if_splits prod.splits option.splits
      dest: metadata_loop_keeps)

lemma add_metadata_timestamp:
  "add_metadata [(''Timestamp'', t)] inp = (as, inp', ms, r) \<Longrightarrow> ''Timestamp'' \<in> fst ` set as"
  by (drule add_metadata_keeps) simp

lemma ingest_row_cases [consumes 1, case_names no_time bad_path duplicate bad_row refused metadata_error inserted]:
  assumes "ingest_row row (s :: 'f state) = (e, s')"
  obtains
    "map_of row ''time'' = None" "e = Some (KeyError ''time'')" "s' = s"
  | t err where "map_of row ''time'' = Some t"
      "find_path (store s) (path_components (as_str t)) = Inl err" "e = Some err" "s' = s"
  | t n where "map_of row ''time'' = Some t"
      "find_path (store s) (path_components (as_str t)) = Inr (Some n)" "e = None"
      "s' = s\<lparr>out := out s @ [SkippingDuplicate (as_str t)]\<rparr>"
  | t err where "map_of row ''time'' = Some t"
      "find_path (store s) (path_components (as_str t)) = Inr None"
      "read_intensities row = Inl err" "e = Some err" "s' = s"
  | t xs where "map_of row ''time'' = Some t"
      "find_path (store s) (path_components (as_str t)) = Inr None"
      "read_intensities row = Inr xs" "\<not> creatable (as_str t)" "e = Some H5Error"
      "s' = s\<lparr>store := put_path (path_components (as_str t)) (Group [] []) (store s)\<rparr>"
  | t xs as inp ms err where "map_of row ''time'' = Some t"
      "find_path (store s) (path_components (as_str t)) = Inr None"
      "read_intensities row = Inr xs" "creatable (as_str t)"
      "add_metadata [(''Timestamp'', as_str t)] (stdin s) = (as, inp, ms, Inl err)"
      "e = Some err"
      "s' = s\<lparr>store := put_path (path_components (as_str t)) (sample_group xs as) (store s),
               stdin := inp, out := out s @ ms\<rparr>"
  | t xs as inp ms b where "map_of row ''time'' = Some t"
      "find_path (store s) (path_components (as_str t)) = Inr None"
      "read_intensities row = Inr xs" "creatable (as_str t)"
      "add_metadata [(''Timestamp'', as_str t)] (stdin s) = (as, inp, ms, Inr b)"
      "e = None"
      "s' = s\<lparr>store := put_path (path_components (as_str t)) (sample_group xs as) (store s),
               stdin := inp,
               metadata_updates := (metadata_updates s \<or> b),
               added_samples := added_samples s @ [as_str t],
               out := out s @ ms @ [AddedSample (as_str t)],
               reports := reports s @ [(as_str t, b)]\<rparr>"
proof (cases "map_of row ''time''")
  case None
  with assms have "e = Some (KeyError ''time'')" "s' = s" by (simp_all add: ingest_row_def)
  with None show ?thesis by (rule that(1))
next
  case (Some t)
  show ?thesis
  proof (cases "find_path (store s) (path_components (as_str t))")
    case (Inl err)
    with assms Some have "e = Some err" "s' = s" by (simp_all add: ingest_row_def)
    with Some Inl show ?thesis by (rule that(2))
  next
    case (Inr found)
    show ?thesis
    proof (cases found)
      case n: (Some n)
      with assms Some Inr have "e = None" "s' = s\<lparr>out := out s @ [SkippingDuplicate (as_str t)]\<rparr>"
        by (simp_all add: ingest_row_def)
      with Some Inr[unfolded n] show ?thesis by (rule that(3))
    next
      case None
      note f = Inr[unfolded None]
      show ?thesis
      proof (cases "read_intensities row")
        case (Inl err)
        with assms Some f have "e = Some err" "s' = s" by (simp_all add: ingest_row_def)
        with Some f Inl show ?thesis by (rule that(4))
      next
        case (Inr xs)
        show ?thesis
        proof (cases "creatable (as_str t)")
          case False
          with assms Some f Inr have "e = Some H5Error"
            "s' = s\<lparr>store := put_path (path_components (as_str t)) (Group [] []) (store s)\<rparr>"
            by (simp_all add: ingest_row_def)
          with Some f Inr False show ?thesis by (rule that(5))
        next
          case True
          obtain as inp ms r where m: "add_metadata [(''Timestamp'', as_str t)] (stdin s) = (as, inp, ms :: 'f msg list, r)"
            by (metis prod_cases4)
          show ?thesis
          proof (cases r)
            case (Inl err)
            with assms Some f Inr m True have "e = Some err"
              "s' = s\<lparr>store := put_path (path_components (as_str t)) (sample_group xs as) (store s),
                 stdin := inp, out := out s @ ms\<rparr>"
              by (simp_all add: ingest_row_def)
            with Some f Inr True m[unfolded Inl] show ?thesis by (rule that(6))
          next
            case r: (Inr b)
            with assms Some f Inr m True have "e = None"
              "s' = s\<lparr>store := put_path (path_components (as_str t)) (sample_group xs as) (store s),
                 stdin := inp,
                 metadata_updates := (metadata_updates s \<or> b),
                 added_samples := added_samples s @ [as_str t],
                 out := out s @ ms @ [AddedSample (as_str t)],
                 reports := reports s @ [(as_str t, b)]\<rparr>"
              by (simp_all add: ingest_row_def)
            with Some f Inr True m[unfolded r] show ?thesis by (rule that(7))
          qed
        qed
      qed
    qed
  qed
qed

section \<open>Invariants of the store\<close>

text \<open>A property of the store that creating a sample group keeps, for the keys of the
  batch, is kept by a row, by the rows of a file, by the files of a batch and by the
  whole call.\<close>

lemma keys_satisfy_True: "keys_satisfy (\<lambda>k. True) rows"
  by (induction rows) (auto simp: keys_satisfy_def split: option.splits)

lemma keys_satisfy_Cons:
  "keys_satisfy K (row # rows) = (keys_satisfy K [row] \<and> keys_satisfy K rows)"
  by (simp add: keys_satisfy_def)

lemma keys_satisfy_append:
  "keys_satisfy K (xs @ ys) = (keys_satisfy K xs \<and> keys_satisfy K ys)"
  by (simp add: keys_satisfy_def)

lemma batch_rows_Cons:
  "batch_rows read_csv (p # ps) = batch_rows read_csv [p] @ batch_rows read_csv ps"
  by (simp add: batch_rows_def)

lemma ingest_row_invariant:
  assumes "ingest_row row s = (e, s')" and "P (store s)" and "keys_satisfy K [row]"
    and step: "\<And>gs k xs as. P gs \<Longrightarrow> K k \<Longrightarrow> find_path gs (path_components k) = Inr None
                 \<Longrightarrow> length xs = 10 \<Longrightarrow> ''Timestamp'' \<in> fst ` set as
                 \<Longrightarrow> P (put_path (path_components k) (sample_group xs as) gs)"
    and refused': "\<And>gs k. P gs \<Longrightarrow> K k \<Longrightarrow> find_path gs (path_components k) = Inr None
                 \<Longrightarrow> \<not> creatable k \<Longrightarrow> P (put_path (path_components k) (Group [] []) gs)"
  shows "P (store s')"
  using assms(1)
proof (cases rule: ingest_row_cases)
  case (refused t xs)
  from assms(3) refused(1) have "K (as_str t)" by (simp add: keys_satisfy_def)
  from refused'[OF assms(2) this refused(2) refused(4)]
  show ?thesis by (simp add: refused(6))
next
  case (metadata_error t xs as inp ms err)
  from assms(3) metadata_error(1) have "K (as_str t)" by (simp add: keys_satisfy_def)
  from step[OF assms(2) this metadata_error(2) read_intensities_length[OF metadata_error(3)]
      add_metadata_timestamp[OF metadata_error(5)]]
  show ?thesis by (simp add: metadata_error(7))
next
  case (inserted t xs as inp ms b)
  from assms(3) inserted(1) have "K (as_str t)" by (simp add: keys_satisfy_def)
  from step[OF assms(2) this inserted(2) read_intensities_length[OF inserted(3)]
      add_metadata_timestamp[OF inserted(5)]]
  show ?thesis by (simp add: inserted(7))
qed (simp_all add: assms(2))

lemma ingest_rows_invariant:
  assumes "ingest_rows rows s = (e, s')" and "P (store s)" and "keys_satisfy K rows"
    and step: "\<And>gs k xs as. P gs \<Longrightarrow> K k \<Longrightarrow> find_path gs (path_components k) = Inr None
                 \<Longrightarrow> length xs = 10 \<Longrightarrow> ''Timestamp'' \<in> fst ` set as
                 \<Longrightarrow> P (put_path (path_components k) (sample_group xs as) gs)"
    and refused: "\<And>gs k. P gs \<Longrightarrow> K k \<Longrightarrow> find_path gs (path_components k) = Inr None
                 \<Longrightarrow> \<not> creatable k \<Longrightarrow> P (put_path (path_components k) (Group [] []) gs)"
  shows "P (store s')"
  using assms(1,2,3)
proof (induction rows arbitrary: s)
  case Nil
  then show ?case by simp
next
  case (Cons row rows)
  obtain e1 s1 where r: "ingest_row row s = (e1, s1)" by (cases "ingest_row row s")
  from Cons.prems(3) have k: "keys_satisfy K [row]" "keys_satisfy K rows"
    by (simp_all add: keys_satisfy_def)
  from ingest_row_invariant[of row s e1 s1 P K, OF r Cons.prems(2) k(1) step refused]
  have p1: "P (store s1)" by blast
  show ?case
  proof (cases e1)
    case None
    with Cons.prems(1) r have "ingest_rows rows s1 = (e, s')" by simp
    from Cons.IH[OF this p1 k(2)] show ?thesis .
  next
    case (Some a)
    with Cons.prems(1) r p1 show ?thesis by simp
  qed
qed

lemma ingest_file_invariant:
  assumes "ingest_file read_csv data_type p s = (e, s')" and "P (store s)"
    and "keys_satisfy K (batch_rows read_csv [p])"
    and step: "\<And>gs k xs as. P gs \<Longrightarrow> K k \<Longrightarrow> find_path gs (path_components k) = Inr None
                 \<Longrightarrow> length xs = 10 \<Longrightarrow> ''Timestamp'' \<in> fst ` set as
                 \<Longrightarrow> P (put_path (path_components k) (sample_group xs as) gs)"
    and refused: "\<And>gs k. P gs \<Longrightarrow> K k \<Longrightarrow> find_path gs (path_components k) = Inr None
                 \<Longrightarrow> \<not> creatable k \<Longrightarrow> P (put_path (path_components k) (Group [] []) gs)"
  shows "P (store s')"
proof -
  let ?s1 = "s\<lparr>out := out s @ [Processing p]\<rparr>"
  have p1: "P (store ?s1)" using assms(2) by simp
  from assms(1) have "s' = ?s1 \<or> (\<exists>df. read_csv p = Inr df \<and> ingest_rows df ?s1 = (e, s'))"
    by (auto simp: ingest_file_def split: if_splits sum.splits)
  then show ?thesis
  proof
    assume "s' = ?s1"
    with p1 show ?thesis by simp
  next
    assume "\<exists>df. read_csv p = Inr df \<and> ingest_rows df ?s1 = (e, s')"
    then obtain df where df: "read_csv p = Inr df" "ingest_rows df ?s1 = (e, s')" by blast
    from assms(3) df(1) have "keys_satisfy K df" by (simp add: batch_rows_def)
    from ingest_rows_invariant[of df ?s1 e s' P K, OF df(2) p1 this step refused] show ?thesis by blast
  qed
qed

lemma ingest_files_invariant:
  assumes "ingest_files read_csv data_type ps s = (e, s')" and "P (store s)"
    and "keys_satisfy K (batch_rows read_csv ps)"
    and step: "\<And>gs k xs as. P gs \<Longrightarrow> K k \<Longrightarrow> find_path gs (path_components k) = Inr None
                 \<Longrightarrow> length xs = 10 \<Longrightarrow> ''Timestamp'' \<in> fst ` set as
                 \<Longrightarrow> P (put_path (path_components k) (sample_group xs as) gs)"
    and refused: "\<And>gs k. P gs \<Longrightarrow> K k \<Longrightarrow> find_path gs (path_components k) = Inr None
                 \<Longrightarrow> \<not> creatable k \<Longrightarrow> P (put_path (path_components k) (Group [] []) gs)"
  shows "P (store s')"
  using assms(1,2,3)
proof (induction ps arbitrary: s)
  case Nil
  then show ?case by simp
next
  case (Cons p ps)
  obtain e1 s1 where r: "ingest_file read_csv data_type p s = (e1, s1)"
    by (cases "ingest_file read_csv data_type p s")
  from Cons.prems(3) have k: "keys_satisfy K (batch_rows read_csv [p])"
    "keys_satisfy K (batch_rows read_csv ps)"
    by (simp_all add: batch_rows_Cons[of read_csv p ps] keys_satisfy_append)
  from ingest_file_invariant[of read_csv data_type p s e1 s1 P K, OF r Cons.prems(2) k(1) step refused]
  have p1: "P (store s1)" by blast
  show ?case
  proof (cases e1)
    case None
    with Cons.prems(1) r have "ingest_files read_csv data_type ps s1 = (e, s')" by simp
    from Cons.IH[OF this p1 k(2)] show ?thesis .
  next
    case (Some a)
    with Cons.prems(1) r p1 show ?thesis by simp
  qed
qed

lemma add_samples_invariant:
  assumes "P (sample_groups hdf5_file)" and "keys_satisfy K (batch_rows read_csv csv_files)"
    and step: "\<And>gs k xs as. P gs \<Longrightarrow> K k \<Longrightarrow> find_path gs (path_components k) = Inr None
                 \<Longrightarrow> length xs = 10 \<Longrightarrow> ''Timestamp'' \<in> fst ` set as
                 \<Longrightarrow> P (put_path (path_components k) (sample_group xs as) gs)"
    and refused: "\<And>gs k. P gs \<Longrightarrow> K k \<Longrightarrow> find_path gs (path_components k) = Inr None
                 \<Longrightarrow> \<not> creatable k \<Longrightarrow> P (put_path (path_components k) (Group [] []) gs)"
  shows "P (store (snd (add_samples_from_csv read_csv csv_files hdf5_file data_type inp)))"
proof -
  obtain e s where r: "ingest_files read_csv data_type csv_files (initial_state hdf5_file inp) = (e, s)"
    by (cases "ingest_files read_csv data_type csv_files (initial_state hdf5_file inp)")
  have "P (store (initial_state hdf5_file inp))" using assms(1) by (simp add: initial_state_def)
  from ingest_files_invariant[of read_csv data_type csv_files _ e s P K, OF r this assms(2) step refused]
  have "P (store s)" by blast
  then show ?thesis by (simp add: add_samples_from_csv_def r split: option.splits)
qed

section \<open>The keys inserted by a batch\<close>

lemma fresh_keys_append:
  "fresh_keys R (xs @ ys) = fresh_keys R xs @ fresh_keys (occupied_after R xs) ys"
  by (induction xs arbitrary: R) auto

lemma occupied_after_append:
  "occupied_after R (xs @ ys) = occupied_after (occupied_after R xs) ys"
  by (induction xs arbitrary: R) auto

lemma sample_at_put_path:
  assumes "find_path gs p = Inr None" "sample_at gs q"
  shows "sample_at (put_path p g gs) q"
proof -
  from assms(2) obtain n where n: "find_path gs q = Inr (Some n)" "sample_like n"
    by (auto simp: sample_at_def split: sum.splits option.splits)
  show ?thesis
  proof (cases "strict_prefix q p")
    case True
    from find_path_rest[OF assms(1) True n(1)] n(2)
    have "sample_like (h5_put (drop (length q) p) g n)" by (simp add: sample_like_h5_put)
    with True n(1) show ?thesis by (simp add: sample_at_def find_put_path[OF assms(1)])
  next
    case False
    from n(1) have "\<not> prefix p q" using find_path_extension[OF assms(1)] by fastforce
    with False n show ?thesis by (simp add: sample_at_def find_put_path[OF assms(1)])
  qed
qed

lemma sample_at_new:
  assumes "find_path gs p = Inr None" "length xs = 10" "''Timestamp'' \<in> fst ` set as"
  shows "sample_at (put_path p (sample_group xs as) gs) p"
  using assms by (simp add: sample_at_def find_put_path_new sample_like_sample_group)

lemma components_plain: "CHR ''/'' \<notin> set k \<Longrightarrow> components cur k = [cur @ k]"
  by (induction k arbitrary: cur) auto

lemma link_names_plain: "plain_key k \<Longrightarrow> link_names k = [k]"
  by (simp add: plain_key_def link_names_def components_plain)

lemma path_components_plain: "plain_key k \<Longrightarrow> path_components k = [k]"
  by (simp add: path_components_def link_names_plain) (simp add: plain_key_def)

lemma creatable_plain: "plain_key k \<Longrightarrow> creatable k"
  by (simp add: creatable_def link_names_plain) (simp add: plain_key_def)

lemma find_path_single:
  "find_path gs [k] = (case map_of gs k of None \<Rightarrow> Inr None | Some m \<Rightarrow> Inr (Some m))"
  by (simp add: find_path_def split: option.splits)

lemma put_path_single:
  "find_path gs [k] = Inr None \<Longrightarrow> put_path [k] g gs = add_member k g gs"
  by (simp add: find_path_single put_path_names split: option.splits)

lemma inserts_nil:
  "store s' = store s \<Longrightarrow> added_samples s' = added_samples s \<Longrightarrow> reports s' = reports s \<Longrightarrow>
   metadata_updates s' = metadata_updates s \<Longrightarrow> inserts [] s s'"
  by (simp add: inserts_def)

lemma inserts_append:
  assumes "inserts xs s s1" "inserts ys s1 s2"
  shows "inserts (xs @ ys) s s2"
proof -
  let ?R = "resolves (store s)"
  let ?R1 = "resolves (store s1)"
  from assms(1) obtain rs1 where a:
    "added_samples s1 = added_samples s @ fresh_keys ?R xs"
    "reports s1 = reports s @ rs1" "map fst rs1 = fresh_keys ?R xs"
    "metadata_updates s1 = (metadata_updates s \<or> True \<in> set (map snd rs1))"
    "?R1 = occupied_after ?R xs"
    "\<forall>k \<in> set (fresh_keys ?R xs). sample_at (store s1) (path_components k)"
    "\<forall>q. sample_at (store s) q \<longrightarrow> sample_at (store s1) q"
    "list_all plain_key xs \<longrightarrow>
       length (store s1) = length (store s) + length (fresh_keys ?R xs)
       \<and> set (map fst (store s1)) = set (map fst (store s)) \<union> set (fresh_keys ?R xs)"
    unfolding inserts_def by blast
  from assms(2) obtain rs2 where b:
    "added_samples s2 = added_samples s1 @ fresh_keys ?R1 ys"
    "reports s2 = reports s1 @ rs2" "map fst rs2 = fresh_keys ?R1 ys"
    "metadata_updates s2 = (metadata_updates s1 \<or> True \<in> set (map snd rs2))"
    "resolves (store s2) = occupied_after ?R1 ys"
    "\<forall>k \<in> set (fresh_keys ?R1 ys). sample_at (store s2) (path_components k)"
    "\<forall>q. sample_at (store s1) q \<longrightarrow> sample_at (store s2) q"
    "list_all plain_key ys \<longrightarrow>
       length (store s2) = length (store s1) + length (fresh_keys ?R1 ys)
       \<and> set (map fst (store s2)) = set (map fst (store s1)) \<union> set (fresh_keys ?R1 ys)"
    unfolding inserts_def by blast
  have f: "fresh_keys ?R (xs @ ys) = fresh_keys ?R xs @ fresh_keys ?R1 ys"
    by (simp add: fresh_keys_append a(5))
  show ?thesis unfolding inserts_def
  proof (intro conjI)
    show "added_samples s2 = added_samples s @ fresh_keys ?R (xs @ ys)" using a(1) b(1) f by simp
    show "\<exists>rs. reports s2 = reports s @ rs \<and> map fst rs = fresh_keys ?R (xs @ ys)
            \<and> metadata_updates s2 = (metadata_updates s \<or> True \<in> set (map snd rs))"
      using a(2,3,4) b(2,3,4) f by (intro exI[of _ "rs1 @ rs2"]) auto
    show "resolves (store s2) = occupied_after ?R (xs @ ys)"
      using a(5) b(5) by (simp add: occupied_after_append)
    show "\<forall>k \<in> set (fresh_keys ?R (xs @ ys)). sample_at (store s2) (path_components k)"
      using a(6) b(6,7) f by auto
    show "\<forall>q. sample_at (store s) q \<longrightarrow> sample_at (store s2) q" using a(7) b(7) by blast
    show "list_all plain_key (xs @ ys) \<longrightarrow>
       length (store s2) = length (store s) + length (fresh_keys ?R (xs @ ys))
       \<and> set (map fst (store s2)) = set (map fst (store s)) \<union> set (fresh_keys ?R (xs @ ys))"
      using a(8) b(8) f by auto
  qed
qed

lemma ingest_row_inserts:
  assumes "ingest_row row s = (None, s')"
  shows "inserts [row_key row] s s'"
  using assms
proof (cases rule: ingest_row_cases)
  case (duplicate t n)
  then show ?thesis by (simp add: inserts_def row_key_def resolves_def)
next
  case (inserted t xs as inp ms b)
  let ?p = "path_components (as_str t)"
  let ?g = "sample_group xs as"
  note len = read_intensities_length[OF inserted(3)]
  note ts = add_metadata_timestamp[OF inserted(5)]
  have nr: "\<not> resolves (store s) ?p" using inserted(2) by (simp add: resolves_def)
  have st: "store s' = put_path ?p ?g (store s)" by (simp add: inserted(7))
  have r': "resolves (store s') = (\<lambda>q. resolves (store s) q \<or> sample_path ?p q)"
    unfolding st by (rule ext) (rule resolves_put_path[OF inserted(2)])
  have new: "sample_at (store s') ?p" unfolding st by (rule sample_at_new[OF inserted(2) len ts])
  have old: "\<forall>q. sample_at (store s) q \<longrightarrow> sample_at (store s') q"
    unfolding st using sample_at_put_path[OF inserted(2)] by blast
  have plain: "length (store s') = length (store s) + 1
       \<and> set (map fst (store s')) = set (map fst (store s)) \<union> {as_str t}"
    if "plain_key (as_str t)"
  proof -
    from path_components_plain[OF that] have p: "?p = [as_str t]" .
    from inserted(2) have "put_path ?p ?g (store s) = add_member (as_str t) ?g (store s)"
      unfolding p by (rule put_path_single)
    then show ?thesis unfolding st by (simp add: length_add_member names_add_member)
  qed
  show ?thesis unfolding inserts_def
  proof (intro conjI)
    show "added_samples s' = added_samples s @ fresh_keys (resolves (store s)) [row_key row]"
      using nr inserted(1) by (simp add: inserted(7) row_key_def)
    show "\<exists>rs. reports s' = reports s @ rs
            \<and> map fst rs = fresh_keys (resolves (store s)) [row_key row]
            \<and> metadata_updates s' = (metadata_updates s \<or> True \<in> set (map snd rs))"
      using nr inserted(1) by (intro exI[of _ "[(as_str t, b)]"]) (simp add: inserted(7) row_key_def)
    show "resolves (store s') = occupied_after (resolves (store s)) [row_key row]"
      using nr inserted(1) r' by (simp add: row_key_def)
    show "\<forall>k \<in> set (fresh_keys (resolves (store s)) [row_key row]). sample_at (store s') (path_components k)"
      using nr inserted(1) new by (simp add: row_key_def)
    show "\<forall>q. sample_at (store s) q \<longrightarrow> sample_at (store s') q" by (rule old)
    show "list_all plain_key [row_key row] \<longrightarrow>
       length (store s') = length (store s) + length (fresh_keys (resolves (store s)) [row_key row])
       \<and> set (map fst (store s')) = set (map fst (store s)) \<union> set (fresh_keys (resolves (store s)) [row_key row])"
      using nr inserted(1) plain by (simp add: row_key_def)
  qed
qed simp_all

lemma ingest_rows_inserts:
  "ingest_rows rows s = (None, s') \<Longrightarrow> inserts (map row_key rows) s s'"
proof (induction rows arbitrary: s)
  case Nil
  then show ?case by (simp add: inserts_nil)
next
  case (Cons row rows)
  obtain e1 s1 where r: "ingest_row row s = (e1, s1)" by (cases "ingest_row row s")
  with Cons.prems have e1: "e1 = None" and rest: "ingest_rows rows s1 = (None, s')"
    by (auto split: option.splits)
  from inserts_append[OF ingest_row_inserts[OF r[unfolded e1]] Cons.IH[OF rest]]
  show ?case by simp
qed

lemma ingest_file_inserts:
  assumes "ingest_file read_csv ''3'' p s = (None, s')"
  shows "inserts (map row_key (batch_rows read_csv [p])) s s'"
proof -
  let ?s1 = "s\<lparr>out := out s @ [Processing p]\<rparr>"
  from assms obtain df where df: "read_csv p = Inr df" and r: "ingest_rows df ?s1 = (None, s')"
    by (auto simp: ingest_file_def split: sum.splits)
  have "inserts [] s ?s1" by (simp add: inserts_nil)
  from inserts_append[OF this ingest_rows_inserts[OF r]] show ?thesis
    by (simp add: batch_rows_def df)
qed

lemma ingest_files_inserts:
  "ingest_files read_csv ''3'' ps s = (None, s') \<Longrightarrow>
     inserts (map row_key (batch_rows read_csv ps)) s s'"
proof (induction ps arbitrary: s)
  case Nil
  then show ?case by (simp add: inserts_nil batch_rows_def)
next
  case (Cons p ps)
  obtain e1 s1 where r: "ingest_file read_csv ''3'' p s = (e1, s1)"
    by (cases "ingest_file read_csv ''3'' p s")
  with Cons.prems have e1: "e1 = None" and rest: "ingest_files read_csv ''3'' ps s1 = (None, s')"
    by (auto split: option.splits)
  from inserts_append[OF ingest_file_inserts[OF r[unfolded e1]] Cons.IH[OF rest]]
  show ?case by (simp add: batch_rows_Cons[of read_csv p ps])
qed

lemma add_samples_inserts:
  assumes "fst (add_samples_from_csv read_csv csv_files hdf5_file ''3'' inp) = Inr (ks, b)"
  shows "inserts (map row_key (batch_rows read_csv csv_files)) (initial_state hdf5_file inp)
           (snd (add_samples_from_csv read_csv csv_files hdf5_file ''3'' inp))
         \<and> added_samples (snd (add_samples_from_csv read_csv csv_files hdf5_file ''3'' inp)) = ks
         \<and> metadata_updates (snd (add_samples_from_csv read_csv csv_files hdf5_file ''3'' inp)) = b"
proof -
  obtain e s where r: "ingest_files read_csv ''3'' csv_files (initial_state hdf5_file inp) = (e, s)"
    by (cases "ingest_files read_csv ''3'' csv_files (initial_state hdf5_file inp)")
  with assms have e: "e = None" and ks: "added_samples s = ks" and b: "metadata_updates s = b"
    by (auto simp: add_samples_from_csv_def split: option.splits)
  from ingest_files_inserts[OF r[unfolded e]] ks b r e show ?thesis
    by (simp add: add_samples_from_csv_def)
qed

lemma fresh_keys_not_occupied: "k \<in> set (fresh_keys R ks) \<Longrightarrow> \<not> R (path_components k)"
proof (induction ks arbitrary: R)
  case Nil
  then show ?case by simp
next
  case (Cons a ks)
  show ?case
  proof (cases "R (path_components a)")
    case True
    with Cons show ?thesis by simp
  next
    case False
    with Cons.prems have "k = a \<or> k \<in> set (fresh_keys (\<lambda>q. R q \<or> sample_path (path_components a) q) ks)"
      by simp
    then show ?thesis using False Cons.IH[of "\<lambda>q. R q \<or> sample_path (path_components a) q"] by auto
  qed
qed

lemma fresh_keys_distinct: "distinct (map path_components (fresh_keys R ks))"
proof (induction ks arbitrary: R)
  case Nil
  then show ?case by simp
next
  case (Cons a ks)
  show ?case
  proof (cases "R (path_components a)")
    case True
    with Cons show ?thesis by simp
  next
    case False
    let ?R' = "\<lambda>q. R q \<or> sample_path (path_components a) q"
    have ne: "path_components k \<noteq> path_components a" if "k \<in> set (fresh_keys ?R' ks)" for k
      using fresh_keys_not_occupied[OF that] by (auto simp: sample_path_def)
    have "path_components a \<notin> path_components ` set (fresh_keys ?R' ks)"
    proof
      assume "path_components a \<in> path_components ` set (fresh_keys ?R' ks)"
      then obtain k where k: "k \<in> set (fresh_keys ?R' ks)" "path_components a = path_components k"
        by (rule imageE)
      from ne[OF k(1)] k(2) show False by simp
    qed
    moreover have "distinct (map path_components (fresh_keys ?R' ks))" by (rule Cons.IH)
    ultimately show ?thesis using False by simp
  qed
qed

section \<open>Other source types\<close>

lemma ingest_files_other_type:
  "data_type \<noteq> ''3'' \<Longrightarrow>
   ingest_files read_csv data_type csv_files s =
     (None, s\<lparr>out := out s @ map Processing csv_files\<rparr>)"
  by (induction csv_files arbitrary: s) (simp_all add: ingest_file_def)

text \<open>
  Claim C10. For every \<open>data_type\<close> other than \<open>''3''\<close> and every list of CSV files,
  \<open>add_samples_from_csv\<close> returns the empty list of inserted keys and a false metadata
  flag, it only prints one line for each file, the sample groups of the container are
  the ones it had, and no console input is read.
\<close>

theorem other_data_type_writes_nothing:
  assumes "data_type \<noteq> ''3''"
  shows "add_samples_from_csv read_csv csv_files hdf5_file data_type inp =
           (Inr ([], False), (initial_state hdf5_file inp)\<lparr>out := map Processing csv_files\<rparr>)
         \<and> sample_groups (file_after (snd (add_samples_from_csv read_csv csv_files hdf5_file data_type inp)))
             = sample_groups hdf5_file
         \<and> stdin (snd (add_samples_from_csv read_csv csv_files hdf5_file data_type inp)) = inp"
  using assms
  by (simp add: add_samples_from_csv_def ingest_files_other_type initial_state_def file_after_def)

theorem other_data_type_writes_nothing_witness:
  "''2'' \<noteq> ''3'' \<and>
   add_samples_from_csv example_fs [''good.csv'', ''bad.csv''] stored_T2 ''2'' [''y''] =
     (Inr ([], False),
      (initial_state stored_T2 [''y''])\<lparr>out := map Processing [''good.csv'', ''bad.csv'']\<rparr>)"
proof -
  have h: "''2'' \<noteq> ''3''" by simp
  from other_data_type_writes_nothing [OF h, of example_fs "[''good.csv'', ''bad.csv'']" stored_T2 "[''y'']"]
  show ?thesis using h by blast
qed

section \<open>A row without a required column\<close>







section \<open>The metadata prompt\<close>

lemma lower_strip_y: "lower (strip ''y'') = ''y''"
  by code_simp

lemma strip_empty: "strip [] = []"
  by code_simp

text \<open>The value returned is the answer to the first prompt, and the loop ends at an
  empty key.\<close>

lemma add_metadata_returns:
  "add_metadata g (a # inp) = (g', inp', ms, Inr b) \<Longrightarrow> b = (lower (strip a) = ''y'')"
  by (auto simp: add_metadata_def split: if_splits prod.splits option.splits)

lemma metadata_loop_empty_key:
  "strip k = [] \<Longrightarrow> metadata_loop g (k # inp) = (g, inp, [], None)"
  by (cases inp) simp_all

lemma metadata_loop_pair:
  "strip k \<noteq> [] \<Longrightarrow> strip k' = [] \<Longrightarrow>
   metadata_loop g (k # v # k' # inp)
     = (set_attr (strip k) (strip v) g, inp, [AddedMetadata (strip k) (strip v)], None)"
  by (simp add: metadata_loop_empty_key)

text \<open>
  Claim C6 fails on the code: after the answer \<open>y\<close>, an empty key at the first key prompt
  ends the loop with no pair written, the attributes of the sample group are unchanged,
  and \<open>add_metadata\<close> returns \<open>True\<close>.
\<close>

theorem add_metadata_true_without_pair:
  "add_metadata g (''y'' # [] # inp) = (g, inp, [], Inr True)"
  by (simp add: add_metadata_def lower_strip_y metadata_loop_empty_key strip_empty)

section \<open>Reading the container\<close>

text \<open>
  Claim C9. \<open>list_samples\<close> returns the empty list when nothing exists at the path, when
  the group \<open>samples\<close> is absent and when it has no members; otherwise it returns the
  names of all members of \<open>samples\<close> in the order of the container. It has no raising
  branch.
\<close>

theorem list_samples_keys:
  "list_samples None = ([], [NoDatabase])
   \<and> list_samples (Some (H5File None)) = ([], [NoSamples])
   \<and> list_samples (Some (H5File (Some []))) = ([], [])
   \<and> list_samples (Some (H5File (Some gs))) = (map fst gs, [])
   \<and> fst (list_samples f) = sample_keys f"
proof -
  have "fst (list_samples f) = sample_keys f"
    by (cases f rule: sample_groups.cases) (simp_all add: list_samples_def sample_keys_def)
  then show ?thesis by (simp add: list_samples_def)
qed

section \<open>Plotting the samples that the ingestion writes\<close>

lemma plot_loop_sample_group:
  assumes "find_sample f k = Inr (Some (sample_group xs as))"
  shows "plot_loop f (k # rest) handles ms = (Inl (KeyError ''Absorption''), ms)"
  using assms by (simp add: sample_group_def)

lemma view_sample_as7341:
  "view_sample (members_of (written_group t)) [(''Timestamp'', t)]
     = Inr [ShowTimestamp t, ShowWavelengths (IntArr [415, 445, 480, 515, 555]),
            ShowIntensities (FloatArr [11, 12, 13, 14, 15]), ShowMetadata [(''Timestamp'', t)]]"
  by (simp add: view_sample_def written_group_def new_sample_group_def sample_group_def
      AS7341_WAVELENGTHS_def)

lemma view_sample_spectro:
  "view_sample (members_of spectro_group) [(''Timestamp'', ''S1'')]
     = Inr [ShowTimestamp ''S1'', ShowWavelengths (IntArr [400, 500]), ShowAbsorption (FloatArr [1, 2]),
            ShowTransmission (FloatArr [3, 4]), ShowMetadata [(''Timestamp'', ''S1'')]]"
  by (simp add: view_sample_def spectro_group_def)

text \<open>
  Claim C7 fails on the code. \<open>plot_samples\<close> reads the dataset \<open>Absorption\<close> of every
  requested sample that is present: for a sample as \<open>add_samples_from_csv\<close> writes it,
  with \<open>Intensities\<close>, it raises \<open>KeyError\<close> and nothing is drawn. The sibling
  \<open>view_samples\<close> shows the wavelengths with whichever signal the sample holds.
\<close>

theorem plot_samples_intensities_raises:
  "store (snd (add_samples_from_csv example_fs [''good.csv''] None ''3'' [''n'', ''n'', ''n'']))
     = [(''T1'', written_group ''T1''), (''T2'', written_group ''T2''), (''T3'', written_group ''T3'')]
   \<and> plot_samples (file_after (snd (add_samples_from_csv example_fs [''good.csv''] None ''3'' [''n'', ''n'', ''n''])))
       [''T1''] = (Inl (KeyError ''Absorption''), [])"
  by code_simp

section \<open>Every group created is a sample group or a bare group on the way to one\<close>

lemma is_group_sample_group: "is_group (sample_group xs as)"
  by (simp add: sample_group_def)

lemma created_step_any:
  assumes P: "\<forall>q n. find_path gs q = Inr (Some n) \<longrightarrow> \<not> resolves gs0 q \<longrightarrow> is_group n
                \<longrightarrow> sample_like n \<or> bare_group n"
    and p: "find_path gs p = Inr None"
    and G: "sample_like g \<or> bare_group g"
    and sub: "\<forall>r n. r \<noteq> [] \<longrightarrow> h5_find g r = Inr (Some n) \<longrightarrow> \<not> is_group n"
  shows "\<forall>q n. find_path (put_path p g gs) q = Inr (Some n) \<longrightarrow> \<not> resolves gs0 q
           \<longrightarrow> is_group n \<longrightarrow> sample_like n \<or> bare_group n"
proof (intro allI impI)
  fix q n'
  assume f: "find_path (put_path p g gs) q = Inr (Some n')" and new: "\<not> resolves gs0 q"
    and grp: "is_group n'"
  from G have ig: "is_group g" by (cases g) (auto simp: sample_like_def bare_group_def)
  show "sample_like n' \<or> bare_group n'"
  proof (cases "resolves gs q")
    case True
    then obtain n where n: "find_path gs q = Inr (Some n)"
      by (auto simp: resolves_def split: sum.splits option.splits)
    show ?thesis
    proof (cases "strict_prefix q p")
      case sp: True
      from f sp n have n': "n' = h5_put (drop (length q) p) g n" by (simp add: find_put_path[OF p])
      from grp n' have "is_group n" by (cases n; cases "drop (length q) p") auto
      with P n new have "sample_like n \<or> bare_group n" by blast
      with find_path_rest[OF p sp n] ig show ?thesis unfolding n'
        by (auto intro: sample_like_h5_put bare_group_h5_put)
    next
      case False
      from n have "\<not> prefix p q" using find_path_extension[OF p] by fastforce
      with False f n have "n' = n" by (simp add: find_put_path[OF p])
      with P n new grp show ?thesis by blast
    qed
  next
    case nr: False
    show ?thesis
    proof (cases "strict_prefix q p")
      case sp: True
      with f nr have n': "n' = nest (drop (length q) p) g"
        by (auto simp: find_put_path[OF p] resolves_def split: sum.splits option.splits)
      from sp have "drop (length q) p \<noteq> []" by (auto simp: strict_prefix_def prefix_def)
      then show ?thesis unfolding n' using ig by (intro disjI2 bare_group_nest)
    next
      case False
      show ?thesis
      proof (cases "prefix p q")
        case True
        with False f have h: "h5_find g (drop (length p) q) = Inr (Some n')"
          by (simp add: find_put_path[OF p])
        show ?thesis
        proof (cases "drop (length p) q = []")
          case True
          with h have "n' = g" by simp
          with G show ?thesis by simp
        next
          case False
          with sub h grp show ?thesis by blast
        qed
      next
        case np: False
        with False f nr show ?thesis by (simp add: find_put_path[OF p] resolves_def)
      qed
    qed
  qed
qed

lemma created_step:
  assumes "\<forall>q n. find_path gs q = Inr (Some n) \<longrightarrow> \<not> resolves gs0 q \<longrightarrow> is_group n
                \<longrightarrow> sample_like n \<or> bare_group n"
    and "find_path gs p = Inr None" and "length xs = 10" and "''Timestamp'' \<in> fst ` set as"
  shows "\<forall>q n. find_path (put_path p (sample_group xs as) gs) q = Inr (Some n) \<longrightarrow> \<not> resolves gs0 q
           \<longrightarrow> is_group n \<longrightarrow> sample_like n \<or> bare_group n"
proof (rule created_step_any[OF assms(1,2)])
  show "sample_like (sample_group xs as) \<or> bare_group (sample_group xs as)"
    using assms(3,4) by (simp add: sample_like_sample_group)
  show "\<forall>r n. r \<noteq> [] \<longrightarrow> h5_find (sample_group xs as) r = Inr (Some n) \<longrightarrow> \<not> is_group n"
    by (auto simp: h5_find_sample_group split: if_splits)
qed

lemma refused_step:
  assumes "\<forall>q n. find_path gs q = Inr (Some n) \<longrightarrow> \<not> resolves gs0 q \<longrightarrow> is_group n
                \<longrightarrow> sample_like n \<or> bare_group n"
    and "find_path gs p = Inr None"
  shows "\<forall>q n. find_path (put_path p (Group [] []) gs) q = Inr (Some n) \<longrightarrow> \<not> resolves gs0 q
           \<longrightarrow> is_group n \<longrightarrow> sample_like n \<or> bare_group n"
proof (rule created_step_any[OF assms(1,2)])
  show "sample_like (Group [] [] :: 'a node) \<or> bare_group (Group [] [] :: 'a node)"
    by (simp add: bare_group_def)
  show "\<forall>r n. r \<noteq> [] \<longrightarrow> h5_find (Group [] [] :: 'a node) r = Inr (Some n) \<longrightarrow> \<not> is_group n"
    by (simp add: h5_find_empty_group)
qed

lemma created_groups:
  assumes "find_path (store (snd (add_samples_from_csv read_csv csv_files hdf5_file data_type inp))) q
             = Inr (Some n)"
    and "\<not> resolves (sample_groups hdf5_file) q" and "is_group n"
  shows "sample_like n \<or> bare_group n"
proof -
  let ?P = "\<lambda>gs. \<forall>q n. find_path gs q = Inr (Some n) \<longrightarrow> \<not> resolves (sample_groups hdf5_file) q
                \<longrightarrow> is_group n \<longrightarrow> sample_like n \<or> bare_group n"
  have 0: "?P (sample_groups hdf5_file)" by (auto simp: resolves_def)
  have "?P (store (snd (add_samples_from_csv read_csv csv_files hdf5_file data_type inp)))"
    by (rule add_samples_invariant[of ?P, OF 0 keys_satisfy_True]) (rule created_step, assumption+, rule refused_step)
  with assms show ?thesis by blast
qed

lemma inserted_samples:
  assumes "fst (add_samples_from_csv read_csv csv_files hdf5_file ''3'' inp) = Inr (ks, b)" "k \<in> set ks"
  shows "sample_at (store (snd (add_samples_from_csv read_csv csv_files hdf5_file ''3'' inp)))
           (path_components k)"
proof -
  from add_samples_inserts[OF assms(1)] assms(2) show ?thesis
    unfolding inserts_def by (auto simp: initial_state_def)
qed

lemma sample_like_arrays:
  assumes "sample_like n"
  shows "\<exists>w i. read_array n ''Wavelengths'' = Inr w \<and> read_array n ''Intensities'' = Inr i
           \<and> w = IntArr AS7341_WAVELENGTHS \<and> dlen w = dlen i \<and> dlen i = 10"
proof -
  from assms obtain ms as where n: "n = Group ms as" by (cases n) (simp_all add: sample_like_def)
  from assms n obtain xs where "map_of ms ''Wavelengths'' = Some (Dataset (IntArr AS7341_WAVELENGTHS))"
    "map_of ms ''Intensities'' = Some (Dataset (FloatArr xs))" "length xs = 10"
    by (auto simp: sample_like_def split: option.splits node.splits dataset.splits)
  then show ?thesis by (simp add: n AS7341_WAVELENGTHS_def)
qed

lemma map_of_Some_name: "map_of ms k = Some v \<Longrightarrow> k \<in> fst ` set ms"
  by (metis map_of_eq_None_iff option.distinct(1))

lemma sample_like_fully_written: "sample_like n \<Longrightarrow> fully_written n"
  by (cases n)
    (auto simp: sample_like_def fully_written_def intro: map_of_Some_name
      split: option.splits node.splits dataset.splits)

text \<open>When every key is one link name, every new member of \<open>samples\<close> is a sample group.\<close>

lemma plain_members:
  assumes "keys_satisfy plain_key (batch_rows read_csv csv_files)"
    and "(k, n) \<in> set (store (snd (add_samples_from_csv read_csv csv_files hdf5_file data_type inp)))"
    and "k \<notin> set (sample_keys hdf5_file)"
  shows "sample_like n"
proof -
  let ?P = "\<lambda>gs. list_all (\<lambda>km. fst km \<in> set (sample_keys hdf5_file) \<or> sample_like (snd km)) gs"
  have 0: "?P (sample_groups hdf5_file)" by (simp add: list_all_iff sample_keys_def)
  have "?P (store (snd (add_samples_from_csv read_csv csv_files hdf5_file data_type inp)))"
  proof (rule add_samples_invariant[of ?P, OF 0 assms(1)])
    fix gs :: "(string \<times> 'a node) list" and k and xs :: "'a list" and as :: "(string \<times> string) list"
    assume P: "?P gs" and K: "plain_key k" and f: "find_path gs (path_components k) = Inr None"
      and len: "length xs = 10" and ts: "''Timestamp'' \<in> fst ` set as"
    from f have "put_path (path_components k) (sample_group xs as) gs = add_member k (sample_group xs as) gs"
      unfolding path_components_plain[OF K] by (rule put_path_single)
    then show "?P (put_path (path_components k) (sample_group xs as) gs)"
      using P len ts by (simp add: list_all_add_member sample_like_sample_group)
  next
    fix gs :: "(string \<times> 'a node) list" and k
    assume "plain_key k" "\<not> creatable k"
    then show "?P (put_path (path_components k) (Group [] []) gs)"
      by (simp add: creatable_plain)
  qed
  with assms(2,3) show ?thesis by (auto simp: list_all_iff)
qed

text \<open>
  Claim C2. Every group that \<open>add_samples_from_csv\<close> creates, whatever its arguments and
  whether it returns or raises, is a bare group on the way to the path of a key, without
  any dataset, or holds the dataset \<open>Wavelengths\<close> (the AS7341 table) and a dataset
  \<open>Intensities\<close> of the same length, which is 10. The group at the path of every key
  returned is of the second kind, and so is every member added to \<open>samples\<close> when the
  keys of the batch are link names.
\<close>

theorem stored_lengths_agree:
  "(find_path (store (snd (add_samples_from_csv read_csv csv_files hdf5_file data_type inp))) q
       = Inr (Some n)
     \<longrightarrow> \<not> resolves (sample_groups hdf5_file) q \<longrightarrow> is_group n
     \<longrightarrow> bare_group n
         \<or> (\<exists>w i. read_array n ''Wavelengths'' = Inr w \<and> read_array n ''Intensities'' = Inr i
               \<and> w = IntArr AS7341_WAVELENGTHS \<and> dlen w = dlen i \<and> dlen i = 10))
   \<and> (fst (add_samples_from_csv read_csv csv_files hdf5_file ''3'' inp) = Inr (ks, b)
     \<longrightarrow> k \<in> set ks
     \<longrightarrow> (\<exists>m w i. find_path (store (snd (add_samples_from_csv read_csv csv_files hdf5_file ''3'' inp)))
                     (path_components k) = Inr (Some m)
               \<and> read_array m ''Wavelengths'' = Inr w \<and> read_array m ''Intensities'' = Inr i
               \<and> w = IntArr AS7341_WAVELENGTHS \<and> dlen w = dlen i \<and> dlen i = 10))
   \<and> (keys_satisfy plain_key (batch_rows read_csv csv_files)
     \<longrightarrow> (c, g) \<in> set (store (snd (add_samples_from_csv read_csv csv_files hdf5_file data_type inp)))
     \<longrightarrow> c \<notin> set (sample_keys hdf5_file)
     \<longrightarrow> (\<exists>w i. read_array g ''Wavelengths'' = Inr w \<and> read_array g ''Intensities'' = Inr i
               \<and> w = IntArr AS7341_WAVELENGTHS \<and> dlen w = dlen i \<and> dlen i = 10))"
proof (intro conjI impI)
  assume "find_path (store (snd (add_samples_from_csv read_csv csv_files hdf5_file data_type inp))) q
       = Inr (Some n)" "\<not> resolves (sample_groups hdf5_file) q" "is_group n"
  from created_groups[OF this] sample_like_arrays[of n]
  show "bare_group n
         \<or> (\<exists>w i. read_array n ''Wavelengths'' = Inr w \<and> read_array n ''Intensities'' = Inr i
               \<and> w = IntArr AS7341_WAVELENGTHS \<and> dlen w = dlen i \<and> dlen i = 10)"
    by blast
next
  assume "fst (add_samples_from_csv read_csv csv_files hdf5_file ''3'' inp) = Inr (ks, b)" "k \<in> set ks"
  from inserted_samples[OF this] obtain m where
    m: "find_path (store (snd (add_samples_from_csv read_csv csv_files hdf5_file ''3'' inp)))
          (path_components k) = Inr (Some m)" "sample_like m"
    by (auto simp: sample_at_def split: sum.splits option.splits)
  from sample_like_arrays[OF m(2)] m(1)
  show "\<exists>m w i. find_path (store (snd (add_samples_from_csv read_csv csv_files hdf5_file ''3'' inp)))
                     (path_components k) = Inr (Some m)
               \<and> read_array m ''Wavelengths'' = Inr w \<and> read_array m ''Intensities'' = Inr i
               \<and> w = IntArr AS7341_WAVELENGTHS \<and> dlen w = dlen i \<and> dlen i = 10"
    by blast
next
  assume "keys_satisfy plain_key (batch_rows read_csv csv_files)"
    "(c, g) \<in> set (store (snd (add_samples_from_csv read_csv csv_files hdf5_file data_type inp)))"
    "c \<notin> set (sample_keys hdf5_file)"
  from plain_members[OF this]
  show "\<exists>w i. read_array g ''Wavelengths'' = Inr w \<and> read_array g ''Intensities'' = Inr i
               \<and> w = IntArr AS7341_WAVELENGTHS \<and> dlen w = dlen i \<and> dlen i = 10"
    by (rule sample_like_arrays)
qed

theorem stored_lengths_agree_witness:
  "find_path (store (snd (add_samples_from_csv example_fs [''dates.csv''] stored_T2 ''3'' [''n''])))
      [''2024'', ''01'', ''02''] = Inr (Some (written_group ''2024/01/02''))
   \<and> \<not> resolves (sample_groups stored_T2) [''2024'', ''01'', ''02'']
   \<and> is_group (written_group ''2024/01/02'')
   \<and> \<not> bare_group (written_group ''2024/01/02'')
   \<and> (\<exists>w i. read_array (written_group ''2024/01/02'') ''Wavelengths'' = Inr w
          \<and> read_array (written_group ''2024/01/02'') ''Intensities'' = Inr i
          \<and> w = IntArr AS7341_WAVELENGTHS \<and> dlen w = dlen i \<and> dlen i = 10)
   \<and> fst (add_samples_from_csv example_fs [''good.csv''] stored_T2 ''3'' [''n'', ''n'']) = Inr ([''T1'', ''T3''], False)
   \<and> ''T3'' \<in> set [''T1'', ''T3'']
   \<and> (\<exists>m w i. find_path (store (snd (add_samples_from_csv example_fs [''good.csv''] stored_T2 ''3'' [''n'', ''n''])))
                  (path_components ''T3'') = Inr (Some m)
          \<and> read_array m ''Wavelengths'' = Inr w \<and> read_array m ''Intensities'' = Inr i
          \<and> w = IntArr AS7341_WAVELENGTHS \<and> dlen w = dlen i \<and> dlen i = 10)
   \<and> keys_satisfy plain_key (batch_rows example_fs [''good.csv''])
   \<and> (''T1'', written_group ''T1'')
       \<in> set (store (snd (add_samples_from_csv example_fs [''good.csv''] stored_T2 ''3'' [''n''])))
   \<and> ''T1'' \<notin> set (sample_keys stored_T2)
   \<and> (\<exists>w i. read_array (written_group ''T1'') ''Wavelengths'' = Inr w
          \<and> read_array (written_group ''T1'') ''Intensities'' = Inr i
          \<and> w = IntArr AS7341_WAVELENGTHS \<and> dlen w = dlen i \<and> dlen i = 10)"
proof -
  have h1: "find_path (store (snd (add_samples_from_csv example_fs [''dates.csv''] stored_T2 ''3'' [''n''])))
      [''2024'', ''01'', ''02''] = Inr (Some (written_group ''2024/01/02''))"
    by code_simp
  have h2: "\<not> resolves (sample_groups stored_T2) [''2024'', ''01'', ''02'']" by code_simp
  have h3: "is_group (written_group ''2024/01/02'')" by code_simp
  have h4: "\<not> bare_group (written_group ''2024/01/02'')" by code_simp
  have h5: "fst (add_samples_from_csv example_fs [''good.csv''] stored_T2 ''3'' [''n'', ''n'']) = Inr ([''T1'', ''T3''], False)"
    by code_simp
  have h6: "''T3'' \<in> set [''T1'', ''T3'']" by simp
  from stored_lengths_agree[of example_fs "[''dates.csv'']" stored_T2 "''3''" "[''n'']"
      "[''2024'', ''01'', ''02'']" "written_group ''2024/01/02''"] h1 h2 h3 h4
  have a: "\<exists>w i. read_array (written_group ''2024/01/02'') ''Wavelengths'' = Inr w
          \<and> read_array (written_group ''2024/01/02'') ''Intensities'' = Inr i
          \<and> w = IntArr AS7341_WAVELENGTHS \<and> dlen w = dlen i \<and> dlen i = 10"
    by blast
  from stored_lengths_agree[of example_fs "[''good.csv'']" stored_T2 "''3''" "[''n'', ''n'']"
      _ _ "[''T1'', ''T3'']" False "''T3''"] h5 h6
  have b: "\<exists>m w i. find_path (store (snd (add_samples_from_csv example_fs [''good.csv''] stored_T2 ''3'' [''n'', ''n''])))
                  (path_components ''T3'') = Inr (Some m)
          \<and> read_array m ''Wavelengths'' = Inr w \<and> read_array m ''Intensities'' = Inr i
          \<and> w = IntArr AS7341_WAVELENGTHS \<and> dlen w = dlen i \<and> dlen i = 10"
    by blast
  have h7: "keys_satisfy plain_key (batch_rows example_fs [''good.csv''])" by code_simp
  have h8: "(''T1'', written_group ''T1'')
       \<in> set (store (snd (add_samples_from_csv example_fs [''good.csv''] stored_T2 ''3'' [''n''])))"
    by code_simp
  have h9: "''T1'' \<notin> set (sample_keys stored_T2)" by code_simp
  from stored_lengths_agree[of example_fs "[''good.csv'']" stored_T2 "''3''" "[''n'']"
      _ _ _ _ _ "''T1''" "written_group ''T1''"] h7 h8 h9
  have c: "\<exists>w i. read_array (written_group ''T1'') ''Wavelengths'' = Inr w
          \<and> read_array (written_group ''T1'') ''Intensities'' = Inr i
          \<and> w = IntArr AS7341_WAVELENGTHS \<and> dlen w = dlen i \<and> dlen i = 10"
    by blast
  from h1 h2 h3 h4 a h5 h6 b h7 h8 h9 c show ?thesis by blast
qed

text \<open>A key whose path ends with \<open>.\<close>: the group on the way is created, the creation
  of the sample group is refused, and the call raises.\<close>

lemma refused_creation_example:
  "ingest_row (as7341_row ''a/.'') (initial_state None [''n''])
     = (Some H5Error, (initial_state None [''n''])\<lparr>store := [(''a'', Group [] [])]\<rparr>)"
  by code_simp

text \<open>
  Claim C4, as the code has it. Every group that \<open>add_samples_from_csv\<close> creates is fully
  written, with \<open>Wavelengths\<close>, \<open>Intensities\<close> and \<open>Timestamp\<close>, or is a bare group, without
  attribute or dataset, that \<open>create_group\<close> made on the way to the path of a key with
  several path components; this holds also when the call raises after a group was
  created. The group at the path of every key returned is fully written, and when every
  key of the batch is one link name, every member added to \<open>samples\<close> is fully written.
\<close>

theorem no_partial_group:
  "(find_path (store (snd (add_samples_from_csv read_csv csv_files hdf5_file data_type inp))) q
       = Inr (Some n)
     \<longrightarrow> \<not> resolves (sample_groups hdf5_file) q \<longrightarrow> is_group n
     \<longrightarrow> fully_written n \<or> bare_group n)
   \<and> (fst (add_samples_from_csv read_csv csv_files hdf5_file ''3'' inp) = Inr (ks, b)
     \<longrightarrow> k \<in> set ks
     \<longrightarrow> (\<exists>m. find_path (store (snd (add_samples_from_csv read_csv csv_files hdf5_file ''3'' inp)))
                 (path_components k) = Inr (Some m) \<and> fully_written m))
   \<and> (keys_satisfy plain_key (batch_rows read_csv csv_files)
     \<longrightarrow> (c, g) \<in> set (store (snd (add_samples_from_csv read_csv csv_files hdf5_file data_type inp)))
     \<longrightarrow> c \<notin> set (sample_keys hdf5_file)
     \<longrightarrow> fully_written g)"
proof (intro conjI impI)
  assume "find_path (store (snd (add_samples_from_csv read_csv csv_files hdf5_file data_type inp))) q
       = Inr (Some n)" "\<not> resolves (sample_groups hdf5_file) q" "is_group n"
  from created_groups[OF this] show "fully_written n \<or> bare_group n"
    by (auto dest: sample_like_fully_written)
next
  assume "fst (add_samples_from_csv read_csv csv_files hdf5_file ''3'' inp) = Inr (ks, b)" "k \<in> set ks"
  from inserted_samples[OF this]
  show "\<exists>m. find_path (store (snd (add_samples_from_csv read_csv csv_files hdf5_file ''3'' inp)))
                 (path_components k) = Inr (Some m) \<and> fully_written m"
    by (auto simp: sample_at_def dest: sample_like_fully_written split: sum.splits option.splits)
next
  assume "keys_satisfy plain_key (batch_rows read_csv csv_files)"
    "(c, g) \<in> set (store (snd (add_samples_from_csv read_csv csv_files hdf5_file data_type inp)))"
    "c \<notin> set (sample_keys hdf5_file)"
  from plain_members[OF this] show "fully_written g" by (rule sample_like_fully_written)
qed

theorem no_partial_group_witness:
  "fst (add_samples_from_csv example_fs [''good.csv''] stored_T2 ''3'' [''n'']) = Inl EOFError
   \<and> find_path (store (snd (add_samples_from_csv example_fs [''good.csv''] stored_T2 ''3'' [''n''])))
        [''T3''] = Inr (Some (written_group ''T3''))
   \<and> \<not> resolves (sample_groups stored_T2) [''T3'']
   \<and> is_group (written_group ''T3'')
   \<and> (fully_written (written_group ''T3'') \<or> bare_group (written_group ''T3''))
   \<and> fully_written (written_group ''T3'')
   \<and> fst (add_samples_from_csv example_fs [''dates.csv''] None ''3'' [''n'', ''n''])
       = Inr ([''2024/01/02'', ''2024/01/03''], False)
   \<and> ''2024/01/03'' \<in> set [''2024/01/02'', ''2024/01/03'']
   \<and> (\<exists>m. find_path (store (snd (add_samples_from_csv example_fs [''dates.csv''] None ''3'' [''n'', ''n''])))
              (path_components ''2024/01/03'') = Inr (Some m) \<and> fully_written m)
   \<and> keys_satisfy plain_key (batch_rows example_fs [''good.csv''])
   \<and> (''T3'', written_group ''T3'')
       \<in> set (store (snd (add_samples_from_csv example_fs [''good.csv''] stored_T2 ''3'' [''n''])))
   \<and> ''T3'' \<notin> set (sample_keys stored_T2)"
proof -
  have h0: "fst (add_samples_from_csv example_fs [''good.csv''] stored_T2 ''3'' [''n'']) = Inl EOFError"
    by code_simp
  have h1: "find_path (store (snd (add_samples_from_csv example_fs [''good.csv''] stored_T2 ''3'' [''n''])))
        [''T3''] = Inr (Some (written_group ''T3''))" by code_simp
  have h2: "\<not> resolves (sample_groups stored_T2) [''T3'']" by code_simp
  have h3: "is_group (written_group ''T3'')" by code_simp
  have h4: "fully_written (written_group ''T3'')" by code_simp
  have h5: "fst (add_samples_from_csv example_fs [''dates.csv''] None ''3'' [''n'', ''n''])
       = Inr ([''2024/01/02'', ''2024/01/03''], False)" by code_simp
  have h6: "''2024/01/03'' \<in> set [''2024/01/02'', ''2024/01/03'']" by simp
  have h7: "keys_satisfy plain_key (batch_rows example_fs [''good.csv''])" by code_simp
  have h8: "(''T3'', written_group ''T3'')
       \<in> set (store (snd (add_samples_from_csv example_fs [''good.csv''] stored_T2 ''3'' [''n''])))"
    by code_simp
  have h9: "''T3'' \<notin> set (sample_keys stored_T2)" by code_simp
  from no_partial_group[of example_fs "[''good.csv'']" stored_T2 "''3''" "[''n'']" "[''T3'']"
      "written_group ''T3''"] h1 h2 h3
  have a: "fully_written (written_group ''T3'') \<or> bare_group (written_group ''T3'')" by blast
  from no_partial_group[of example_fs "[''dates.csv'']" None "''3''" "[''n'', ''n'']" _ _
      "[''2024/01/02'', ''2024/01/03'']" False "''2024/01/03''"] h5 h6
  have b: "\<exists>m. find_path (store (snd (add_samples_from_csv example_fs [''dates.csv''] None ''3'' [''n'', ''n''])))
              (path_components ''2024/01/03'') = Inr (Some m) \<and> fully_written m"
    by blast
  from h0 h1 h2 h3 a h4 h5 h6 b h7 h8 h9 show ?thesis by blast
qed

text \<open>
  Claim C4 as stated fails: for the keys \<open>2024/01/02\<close> and \<open>2024/01/03\<close> the call returns
  both keys, and \<open>samples\<close> has the one member \<open>2024\<close>, that was not there before and has
  neither a dataset nor the attribute \<open>Timestamp\<close>.
\<close>

theorem partial_group_counterexample:
  "fst (add_samples_from_csv example_fs [''dates.csv''] None ''3'' [''n'', ''n''])
     = Inr ([''2024/01/02'', ''2024/01/03''], False)
   \<and> sample_keys (None :: int h5file option) = []
   \<and> sample_keys (file_after (snd (add_samples_from_csv example_fs [''dates.csv''] None ''3'' [''n'', ''n'']))) = [''2024'']
   \<and> map (fully_written \<circ> snd) (store (snd (add_samples_from_csv example_fs [''dates.csv''] None ''3'' [''n'', ''n'']))) = [False]"
  by code_simp

section \<open>The value returned\<close>

lemma ingest_row_declined:
  fixes s :: "'f state"
  assumes "well_formed_row row" "plain_key (row_key row)" "list_all declines (stdin s)" "stdin s \<noteq> []"
  shows "\<exists>s'. ingest_row row s = (None, s') \<and> list_all declines (stdin s')
           \<and> length (stdin s) \<le> Suc (length (stdin s')) \<and> metadata_updates s' = metadata_updates s"
proof -
  from assms(1) obtain t xs where t: "map_of row ''time'' = Some t"
    and xs: "read_intensities row = Inr xs"
    by (auto simp: well_formed_row_def split: option.splits sum.splits)
  from assms(2) t have p: "path_components (as_str t) = [as_str t]"
    by (simp add: row_key_def path_components_plain)
  from assms(2) t have c: "creatable (as_str t)"
    by (simp add: row_key_def creatable_plain)
  from assms(3,4) obtain a rest where a: "stdin s = a # rest" "declines a" "list_all declines rest"
    by (cases "stdin s") auto
  show ?thesis
  proof (cases "map_of (store s) (as_str t)")
    case (Some m)
    with t p assms(3) show ?thesis by (simp add: ingest_row_def find_path_single)
  next
    case None
    have "add_metadata [(''Timestamp'', as_str t)] (stdin s)
            = ([(''Timestamp'', as_str t)], rest, [] :: 'f msg list, Inr False)"
      using a by (simp add: add_metadata_def declines_def)
    with t xs None p c a show ?thesis by (simp add: ingest_row_def find_path_single)
  qed
qed

lemma ingest_rows_declined:
  "list_all well_formed_row rows \<Longrightarrow> list_all plain_key (map row_key rows) \<Longrightarrow>
   list_all declines (stdin s) \<Longrightarrow> length rows \<le> length (stdin s) \<Longrightarrow>
   \<exists>s'. ingest_rows rows s = (None, s') \<and> list_all declines (stdin s')
      \<and> length (stdin s) \<le> length rows + length (stdin s') \<and> metadata_updates s' = metadata_updates s"
proof (induction rows arbitrary: s)
  case Nil
  then show ?case by simp
next
  case (Cons row rows)
  from Cons.prems have ne: "stdin s \<noteq> []" by auto
  from Cons.prems have wf: "well_formed_row row" "list_all well_formed_row rows"
    and pl: "plain_key (row_key row)" "list_all plain_key (map row_key rows)" by auto
  from ingest_row_declined[OF wf(1) pl(1) Cons.prems(3) ne] obtain s1 where
    s1: "ingest_row row s = (None, s1)" "list_all declines (stdin s1)"
    "length (stdin s) \<le> Suc (length (stdin s1))" "metadata_updates s1 = metadata_updates s"
    by blast
  from Cons.prems(4) s1(3) have "length rows \<le> length (stdin s1)" by simp
  from Cons.IH[OF wf(2) pl(2) s1(2) this] obtain s' where
    s': "ingest_rows rows s1 = (None, s')" "list_all declines (stdin s')"
    "length (stdin s1) \<le> length rows + length (stdin s')" "metadata_updates s' = metadata_updates s1"
    by blast
  show ?case using s1 s' by (intro exI[of _ s']) simp
qed

lemma ingest_files_declined:
  "list_all (readable read_csv) ps \<Longrightarrow> list_all well_formed_row (batch_rows read_csv ps) \<Longrightarrow>
   list_all plain_key (map row_key (batch_rows read_csv ps)) \<Longrightarrow>
   list_all declines (stdin s) \<Longrightarrow> length (batch_rows read_csv ps) \<le> length (stdin s) \<Longrightarrow>
   \<exists>s'. ingest_files read_csv ''3'' ps s = (None, s') \<and> list_all declines (stdin s')
      \<and> length (stdin s) \<le> length (batch_rows read_csv ps) + length (stdin s')
      \<and> metadata_updates s' = metadata_updates s"
proof (induction ps arbitrary: s)
  case Nil
  then show ?case by (simp add: batch_rows_def)
next
  case (Cons p ps)
  from Cons.prems(1) have rp: "readable read_csv p" and rd: "list_all (readable read_csv) ps"
    by simp_all
  from rp obtain df where df: "read_csv p = Inr df"
    by (cases "read_csv p") (simp_all add: readable_def)
  have br: "batch_rows read_csv (p # ps) = df @ batch_rows read_csv ps"
    by (simp add: batch_rows_def df)
  let ?s0 = "s\<lparr>out := out s @ [Processing p]\<rparr>"
  from Cons.prems(2) br have wf: "list_all well_formed_row df" "list_all well_formed_row (batch_rows read_csv ps)"
    by auto
  from Cons.prems(3) br have pl: "list_all plain_key (map row_key df)"
    "list_all plain_key (map row_key (batch_rows read_csv ps))"
    by auto
  from Cons.prems(4) have d0: "list_all declines (stdin ?s0)" by simp
  from Cons.prems(5) br have l0: "length df \<le> length (stdin ?s0)" by simp
  from ingest_rows_declined[OF wf(1) pl(1) d0 l0] obtain s1 where
    s1: "ingest_rows df ?s0 = (None, s1)" "list_all declines (stdin s1)"
    "length (stdin ?s0) \<le> length df + length (stdin s1)" "metadata_updates s1 = metadata_updates ?s0"
    by blast
  from Cons.prems(5) br s1(3) have "length (batch_rows read_csv ps) \<le> length (stdin s1)" by simp
  from Cons.IH[OF rd wf(2) pl(2) s1(2) this] obtain s' where
    s': "ingest_files read_csv ''3'' ps s1 = (None, s')" "list_all declines (stdin s')"
    "length (stdin s1) \<le> length (batch_rows read_csv ps) + length (stdin s')"
    "metadata_updates s' = metadata_updates s1"
    by blast
  have "ingest_file read_csv ''3'' p s = (None, s1)" using df s1(1) by (simp add: ingest_file_def)
  then show ?case using s1 s' br by (intro exI[of _ s']) simp
qed

lemma sorted_names:
  assumes "sorted (sample_keys hdf5_file)"
  shows "sorted (map fst (store (snd (add_samples_from_csv read_csv csv_files hdf5_file data_type inp))))"
  by (rule add_samples_invariant[of "\<lambda>gs. sorted (map fst gs)", OF _ keys_satisfy_True])
    (simp_all add: assms[unfolded sample_keys_def] sorted_put_path)

text \<open>
  Claim C5. When \<open>add_samples_from_csv\<close> returns, for source type \<open>''3''\<close>, it returns the
  pair of (1) the keys of the batch's rows in the order of processing, without the keys
  whose path was occupied when their row came, and (2) the disjunction of the values
  that \<open>add_metadata\<close> returned, one call for each inserted key. At the path of each key
  returned, which led nowhere before the call, the store now has a sample group. The
  members of \<open>samples\<close> stay in the order of their names, and when the keys of the batch
  are link names, \<open>samples\<close> has gained exactly the keys returned as members. The call
  does return whenever every file can be read, every row is well
  formed with a link name as its key, and the operator declines metadata at each prompt.
\<close>

theorem returned_pair:
  "(fst (add_samples_from_csv read_csv csv_files hdf5_file ''3'' inp) = Inr (inserted_keys, metadata_was_added)
     \<longrightarrow> inserted_keys
           = fresh_keys (resolves (sample_groups hdf5_file)) (map row_key (batch_rows read_csv csv_files))
       \<and> map fst (reports (snd (add_samples_from_csv read_csv csv_files hdf5_file ''3'' inp))) = inserted_keys
       \<and> metadata_was_added
           = (True \<in> set (map snd (reports (snd (add_samples_from_csv read_csv csv_files hdf5_file ''3'' inp)))))
       \<and> list_all (\<lambda>k. \<not> resolves (sample_groups hdf5_file) (path_components k)
                      \<and> sample_at (store (snd (add_samples_from_csv read_csv csv_files hdf5_file ''3'' inp)))
                            (path_components k)) inserted_keys
       \<and> (sorted (sample_keys hdf5_file)
          \<longrightarrow> sorted (sample_keys (file_after (snd (add_samples_from_csv read_csv csv_files hdf5_file ''3'' inp)))))
       \<and> (list_all plain_key (map row_key (batch_rows read_csv csv_files))
          \<longrightarrow> length (sample_keys (file_after (snd (add_samples_from_csv read_csv csv_files hdf5_file ''3'' inp))))
                = length (sample_keys hdf5_file) + length inserted_keys
            \<and> set (sample_keys (file_after (snd (add_samples_from_csv read_csv csv_files hdf5_file ''3'' inp))))
                = set (sample_keys hdf5_file) \<union> set inserted_keys))
   \<and> (list_all (readable read_csv) csv_files \<and> list_all well_formed_row (batch_rows read_csv csv_files)
        \<and> list_all plain_key (map row_key (batch_rows read_csv csv_files))
        \<and> list_all declines inp \<and> length (batch_rows read_csv csv_files) \<le> length inp
     \<longrightarrow> (\<exists>ks. fst (add_samples_from_csv read_csv csv_files hdf5_file ''3'' inp) = Inr (ks, False)))"
proof (intro conjI impI)
  let ?s = "snd (add_samples_from_csv read_csv csv_files hdf5_file ''3'' inp)"
  let ?F = "fresh_keys (resolves (sample_groups hdf5_file)) (map row_key (batch_rows read_csv csv_files))"
  assume r: "fst (add_samples_from_csv read_csv csv_files hdf5_file ''3'' inp) = Inr (inserted_keys, metadata_was_added)"
  from add_samples_inserts[OF r]
  have ins: "inserts (map row_key (batch_rows read_csv csv_files)) (initial_state hdf5_file inp) ?s"
    and k: "added_samples ?s = inserted_keys" and b: "metadata_updates ?s = metadata_was_added"
    by simp_all
  have i1: "added_samples ?s = ?F"
    using ins unfolding inserts_def by (simp add: initial_state_def)
  have i2: "map fst (reports ?s) = ?F \<and> metadata_updates ?s = (True \<in> set (map snd (reports ?s)))"
    using ins unfolding inserts_def by (auto simp: initial_state_def)
  have i5: "\<forall>k \<in> set ?F. sample_at (store ?s) (path_components k)"
    using ins unfolding inserts_def by (simp add: initial_state_def)
  have i6: "list_all plain_key (map row_key (batch_rows read_csv csv_files)) \<longrightarrow>
         length (store ?s) = length (sample_groups hdf5_file) + length ?F
         \<and> set (map fst (store ?s)) = set (map fst (sample_groups hdf5_file)) \<union> set ?F"
    using ins unfolding inserts_def by (simp add: initial_state_def)
  show "inserted_keys = ?F" using i1 k by simp
  show "map fst (reports ?s) = inserted_keys" using i1 i2 k by simp
  show "metadata_was_added = (True \<in> set (map snd (reports ?s)))" using i2 b by simp
  show "list_all (\<lambda>k. \<not> resolves (sample_groups hdf5_file) (path_components k)
                      \<and> sample_at (store ?s) (path_components k)) inserted_keys"
    using i1 i5 k fresh_keys_not_occupied[of _ "resolves (sample_groups hdf5_file)"
        "map row_key (batch_rows read_csv csv_files)"]
    by (auto simp: list_all_iff)
  show "sorted (sample_keys (file_after ?s))" if "sorted (sample_keys hdf5_file)"
    using sorted_names[OF that, of read_csv csv_files "''3''" inp]
    by (simp add: sample_keys_def file_after_def)
  assume "list_all plain_key (map row_key (batch_rows read_csv csv_files))"
  with i6 i1 k
  show "length (sample_keys (file_after ?s)) = length (sample_keys hdf5_file) + length inserted_keys"
    and "set (sample_keys (file_after ?s)) = set (sample_keys hdf5_file) \<union> set inserted_keys"
    by (simp_all add: sample_keys_def file_after_def)
next
  assume "list_all (readable read_csv) csv_files \<and> list_all well_formed_row (batch_rows read_csv csv_files)
        \<and> list_all plain_key (map row_key (batch_rows read_csv csv_files))
        \<and> list_all declines inp \<and> length (batch_rows read_csv csv_files) \<le> length inp"
  then have a: "list_all (readable read_csv) csv_files" "list_all well_formed_row (batch_rows read_csv csv_files)"
    "list_all plain_key (map row_key (batch_rows read_csv csv_files))"
    "list_all declines (stdin (initial_state hdf5_file inp))"
    "length (batch_rows read_csv csv_files) \<le> length (stdin (initial_state hdf5_file inp))"
    by (simp_all add: initial_state_def)
  from ingest_files_declined[OF a] obtain s' where
    "ingest_files read_csv ''3'' csv_files (initial_state hdf5_file inp) = (None, s')"
    "metadata_updates s' = metadata_updates (initial_state hdf5_file inp)"
    by blast
  then show "\<exists>ks. fst (add_samples_from_csv read_csv csv_files hdf5_file ''3'' inp) = Inr (ks, False)"
    by (simp add: add_samples_from_csv_def initial_state_def)
qed

theorem returned_pair_witness:
  "fst (add_samples_from_csv example_fs [''good.csv''] stored_T2 ''3''
          [''n'', [CHR 0xC2, CHR 0xA0, CHR ''Y''], ''fat'', ''3.5'', '''']) = Inr ([''T1'', ''T3''], True)
   \<and> [''T1'', ''T3'']
       = fresh_keys (resolves (sample_groups stored_T2)) (map row_key (batch_rows example_fs [''good.csv'']))
   \<and> map fst (reports (snd (add_samples_from_csv example_fs [''good.csv''] stored_T2 ''3''
          [''n'', [CHR 0xC2, CHR 0xA0, CHR ''Y''], ''fat'', ''3.5'', '''']))) = [''T1'', ''T3'']
   \<and> True \<in> set (map snd (reports (snd (add_samples_from_csv example_fs [''good.csv''] stored_T2 ''3''
          [''n'', [CHR 0xC2, CHR 0xA0, CHR ''Y''], ''fat'', ''3.5'', '''']))))
   \<and> sorted (sample_keys stored_T2)
   \<and> sorted (sample_keys (file_after (snd (add_samples_from_csv example_fs [''good.csv''] stored_T2 ''3''
          [''n'', [CHR 0xC2, CHR 0xA0, CHR ''Y''], ''fat'', ''3.5'', '''']))))
   \<and> list_all plain_key (map row_key (batch_rows example_fs [''good.csv'']))
   \<and> length (sample_keys (file_after (snd (add_samples_from_csv example_fs [''good.csv''] stored_T2 ''3''
          [''n'', [CHR 0xC2, CHR 0xA0, CHR ''Y''], ''fat'', ''3.5'', ''''])))) = length (sample_keys stored_T2) + 2
   \<and> sample_keys (file_after (snd (add_samples_from_csv example_fs [''good.csv''] stored_T2 ''3''
          [''n'', [CHR 0xC2, CHR 0xA0, CHR ''Y''], ''fat'', ''3.5'', '''']))) = [''T1'', ''T2'', ''T3'']
   \<and> list_all (readable example_fs) [''good.csv''] \<and> list_all well_formed_row (batch_rows example_fs [''good.csv''])
   \<and> list_all declines [''n'', ''no'', ''''] \<and> length (batch_rows example_fs [''good.csv'']) \<le> length [''n'', ''no'', '''']
   \<and> (\<exists>ks. fst (add_samples_from_csv example_fs [''good.csv''] stored_T2 ''3'' [''n'', ''no'', '''']) = Inr (ks, False))"
proof -
  let ?inp = "[''n'', [CHR 0xC2, CHR 0xA0, CHR ''Y''], ''fat'', ''3.5'', '''']"
  have h: "fst (add_samples_from_csv example_fs [''good.csv''] stored_T2 ''3'' ?inp) = Inr ([''T1'', ''T3''], True)"
    by code_simp
  have p: "list_all (readable example_fs) [''good.csv'']" "list_all well_formed_row (batch_rows example_fs [''good.csv''])"
    "list_all plain_key (map row_key (batch_rows example_fs [''good.csv'']))"
    "list_all declines [''n'', ''no'', '''']" "length (batch_rows example_fs [''good.csv'']) \<le> length [''n'', ''no'', '''']"
    by code_simp+
  have s: "sample_keys (file_after (snd (add_samples_from_csv example_fs [''good.csv''] stored_T2 ''3'' ?inp)))
     = [''T1'', ''T2'', ''T3'']"
    by code_simp
  have o: "sorted (sample_keys stored_T2)" by code_simp
  from returned_pair[of example_fs "[''good.csv'']" stored_T2 ?inp "[''T1'', ''T3'']" True] h p(3) o
  have 1: "[''T1'', ''T3'']
       = fresh_keys (resolves (sample_groups stored_T2)) (map row_key (batch_rows example_fs [''good.csv'']))
   \<and> map fst (reports (snd (add_samples_from_csv example_fs [''good.csv''] stored_T2 ''3'' ?inp))) = [''T1'', ''T3'']
   \<and> True \<in> set (map snd (reports (snd (add_samples_from_csv example_fs [''good.csv''] stored_T2 ''3'' ?inp))))
   \<and> sorted (sample_keys (file_after (snd (add_samples_from_csv example_fs [''good.csv''] stored_T2 ''3'' ?inp))))
   \<and> length (sample_keys (file_after (snd (add_samples_from_csv example_fs [''good.csv''] stored_T2 ''3'' ?inp))))
       = length (sample_keys stored_T2) + length [''T1'', ''T3'']"
    by blast
  from returned_pair[of example_fs "[''good.csv'']" stored_T2 "[''n'', ''no'', '''']"] p
  have 2: "\<exists>ks. fst (add_samples_from_csv example_fs [''good.csv''] stored_T2 ''3'' [''n'', ''no'', '''']) = Inr (ks, False)"
    by blast
  from h 1 p o s 2 show ?thesis by simp
qed

section \<open>Duplicates\<close>

lemma ingest_row_duplicate:
  "map_of row ''time'' = Some t \<Longrightarrow> resolves (store s) (path_components (as_str t)) \<Longrightarrow>
   ingest_row row s = (None, s\<lparr>out := out s @ [SkippingDuplicate (as_str t)]\<rparr>)"
  by (auto simp: ingest_row_def resolves_def split: sum.splits option.splits)

lemma stored_row_mono:
  "stored_row gs row \<Longrightarrow> (\<And>q. resolves gs q \<Longrightarrow> resolves gs' q) \<Longrightarrow> stored_row gs' row"
  by (auto simp: stored_row_def split: option.splits)

lemma sample_path_refl: "sample_path p p"
  by (simp add: sample_path_def)

lemma ingest_row_stored:
  assumes "ingest_row row s = (None, s')"
  shows "stored_row (store s') row"
  using assms
proof (cases rule: ingest_row_cases)
  case (duplicate t n)
  then show ?thesis by (simp add: stored_row_def resolves_def)
next
  case (inserted t xs as inp ms b)
  then show ?thesis
    by (simp add: stored_row_def resolves_put_path sample_path_refl)
qed simp_all

text \<open>A path found in the store is found after any part of a run.\<close>

lemma resolves_step:
  assumes "\<forall>q. resolves gs0 q \<longrightarrow> resolves gs q" "find_path gs p = Inr None"
  shows "\<forall>q. resolves gs0 q \<longrightarrow> resolves (put_path p (sample_group xs as) gs) q"
  using assms by (simp add: resolves_put_path)

lemma ingest_rows_resolves:
  assumes "ingest_rows rows s = (e, s')" "resolves (store s) q"
  shows "resolves (store s') q"
proof -
  let ?P = "\<lambda>gs. \<forall>q. resolves (store s) q \<longrightarrow> resolves gs q"
  have "?P (store s')"
    by (rule ingest_rows_invariant[of rows s e s' ?P, OF assms(1) _ keys_satisfy_True])
      (simp_all add: resolves_put_path resolves_put_empty)
  with assms(2) show ?thesis by blast
qed

lemma ingest_files_resolves:
  assumes "ingest_files read_csv data_type ps s = (e, s')" "resolves (store s) q"
  shows "resolves (store s') q"
proof -
  let ?P = "\<lambda>gs. \<forall>q. resolves (store s) q \<longrightarrow> resolves gs q"
  have "?P (store s')"
    by (rule ingest_files_invariant[of read_csv data_type ps s e s' ?P, OF assms(1) _ keys_satisfy_True])
      (simp_all add: resolves_put_path resolves_put_empty)
  with assms(2) show ?thesis by blast
qed

lemma ingest_rows_stored:
  "ingest_rows rows s = (None, s') \<Longrightarrow> list_all (stored_row (store s')) rows"
proof (induction rows arbitrary: s)
  case Nil
  then show ?case by simp
next
  case (Cons row rows)
  obtain e1 s1 where r: "ingest_row row s = (e1, s1)" by (cases "ingest_row row s")
  with Cons.prems have e1: "e1 = None" and rest: "ingest_rows rows s1 = (None, s')"
    by (auto split: option.splits)
  from ingest_row_stored[OF r[unfolded e1]] ingest_rows_resolves[OF rest]
  have "stored_row (store s') row" by (rule stored_row_mono)
  with Cons.IH[OF rest] show ?case by simp
qed

lemma ingest_files_stored:
  "ingest_files read_csv ''3'' ps s = (None, s') \<Longrightarrow>
     list_all (readable read_csv) ps \<and> list_all (stored_row (store s')) (batch_rows read_csv ps)"
proof (induction ps arbitrary: s)
  case Nil
  then show ?case by (simp add: batch_rows_def)
next
  case (Cons p ps)
  obtain e1 s1 where r: "ingest_file read_csv ''3'' p s = (e1, s1)"
    by (cases "ingest_file read_csv ''3'' p s")
  with Cons.prems have e1: "e1 = None" and rest: "ingest_files read_csv ''3'' ps s1 = (None, s')"
    by (auto split: option.splits)
  from r e1 obtain df where df: "read_csv p = Inr df"
    and rows: "ingest_rows df (s\<lparr>out := out s @ [Processing p]\<rparr>) = (None, s1)"
    by (auto simp: ingest_file_def split: sum.splits)
  have "list_all (stored_row (store s1)) df" by (rule ingest_rows_stored[OF rows])
  with stored_row_mono[OF _ ingest_files_resolves[OF rest]]
  have "list_all (stored_row (store s')) df"
    unfolding list_all_iff by blast
  with Cons.IH[OF rest] df show ?case
    by (simp add: batch_rows_def readable_def)
qed

lemma ingest_rows_all_stored:
  "list_all (stored_row (store s)) rows \<Longrightarrow>
   ingest_rows rows s = (None, s\<lparr>out := out s @ map (\<lambda>row. SkippingDuplicate (row_key row)) rows\<rparr>)"
proof (induction rows arbitrary: s)
  case Nil
  then show ?case by simp
next
  case (Cons row rows)
  from Cons.prems obtain t where t: "map_of row ''time'' = Some t"
    "resolves (store s) (path_components (as_str t))"
    by (auto simp: stored_row_def split: option.splits)
  let ?s1 = "s\<lparr>out := out s @ [SkippingDuplicate (as_str t)]\<rparr>"
  from Cons.prems have "list_all (stored_row (store ?s1)) rows" by simp
  from Cons.IH[OF this] ingest_row_duplicate[OF t] t(1) show ?case
    by (simp add: row_key_def)
qed

lemma ingest_files_all_stored:
  "list_all (readable read_csv) ps \<Longrightarrow> list_all (stored_row (store s)) (batch_rows read_csv ps) \<Longrightarrow>
   ingest_files read_csv ''3'' ps s = (None, s\<lparr>out := out s @ skip_log read_csv ps\<rparr>)"
proof (induction ps arbitrary: s)
  case Nil
  then show ?case by (simp add: skip_log_def)
next
  case (Cons p ps)
  from Cons.prems(1) have rp: "readable read_csv p" and rd: "list_all (readable read_csv) ps"
    by simp_all
  from rp obtain df where df: "read_csv p = Inr df"
    by (cases "read_csv p") (simp_all add: readable_def)
  have br: "batch_rows read_csv (p # ps) = df @ batch_rows read_csv ps" "batch_rows read_csv [p] = df"
    by (simp_all add: batch_rows_def df)
  let ?s0 = "s\<lparr>out := out s @ [Processing p]\<rparr>"
  let ?s1 = "?s0\<lparr>out := out ?s0 @ map (\<lambda>row. SkippingDuplicate (row_key row)) df\<rparr>"
  from Cons.prems(2) br have "list_all (stored_row (store ?s0)) df" by simp
  from ingest_rows_all_stored[OF this] df have 1: "ingest_file read_csv ''3'' p s = (None, ?s1)"
    by (simp add: ingest_file_def)
  from Cons.prems(2) br have "list_all (stored_row (store ?s1)) (batch_rows read_csv ps)" by simp
  from Cons.IH[OF rd this] 1 show ?case
    by (simp add: skip_log_def br)
qed

text \<open>Every object of the container is kept, and every name in \<open>samples\<close> that is new
  is there once.\<close>

lemma kept_objects:
  assumes "find_path (sample_groups hdf5_file) q = Inr (Some n)"
  shows "\<exists>n'. find_path (store (snd (add_samples_from_csv read_csv csv_files hdf5_file data_type inp))) q
                 = Inr (Some n') \<and> keeps n n'"
proof -
  let ?P = "\<lambda>gs. \<forall>q n. find_path (sample_groups hdf5_file) q = Inr (Some n)
                \<longrightarrow> (\<exists>n'. find_path gs q = Inr (Some n') \<and> keeps n n')"
  have 0: "?P (sample_groups hdf5_file)" by (auto intro: keeps_refl)
  have step: "?P (put_path p g gs)" if P: "?P gs" and f: "find_path gs p = Inr None"
    for gs p and g :: "'a node"
  proof (intro allI impI)
    fix q n assume "find_path (sample_groups hdf5_file) q = Inr (Some n)"
    with P obtain n1 where n1: "find_path gs q = Inr (Some n1)" "keeps n n1" by blast
    from kept_after_put[OF f n1(1)] obtain n' where
      "find_path (put_path p g gs) q = Inr (Some n')" "keeps n1 n'"
      by blast
    with n1(2) show "\<exists>n'. find_path (put_path p g gs) q = Inr (Some n') \<and> keeps n n'"
      by (blast intro: keeps_trans)
  qed
  have "?P (store (snd (add_samples_from_csv read_csv csv_files hdf5_file data_type inp)))"
    by (rule add_samples_invariant[of ?P, OF 0 keys_satisfy_True]) (rule step, assumption+)+
  with assms show ?thesis by blast
qed

lemma member_count: "k \<in> set xs \<longleftrightarrow> count_list xs k \<noteq> 0"
  by (simp add: count_list_0_iff)

lemma names_counted:
  "count_list (map fst (store (snd (add_samples_from_csv read_csv csv_files hdf5_file data_type inp)))) k
     = (if k \<in> set (sample_keys hdf5_file) then count_list (sample_keys hdf5_file) k
        else if k \<in> set (map fst (store (snd (add_samples_from_csv read_csv csv_files hdf5_file data_type inp))))
        then 1 else 0)"
proof -
  let ?c0 = "count_list (sample_keys hdf5_file)"
  let ?P = "\<lambda>gs. \<forall>k. count_list (map fst gs) k = (if ?c0 k \<noteq> 0 then ?c0 k
                       else if count_list (map fst gs) k \<noteq> 0 then 1 else 0)"
  have 0: "?P (sample_groups hdf5_file)" by (simp add: sample_keys_def)
  have step: "?P (put_path p g gs)" if P: "?P gs" and f: "find_path gs p = Inr None"
    for gs p and g :: "'a node"
  proof
    fix c
    from P have c: "count_list (map fst gs) c = (if ?c0 c \<noteq> 0 then ?c0 c
                     else if count_list (map fst gs) c \<noteq> 0 then 1 else 0)" by blast
    show "count_list (map fst (put_path p g gs)) c
            = (if ?c0 c \<noteq> 0 then ?c0 c
               else if count_list (map fst (put_path p g gs)) c \<noteq> 0
               then 1 else 0)"
      unfolding count_put_path[OF f] using c by (auto simp: member_count split: if_splits)
  qed
  have "?P (store (snd (add_samples_from_csv read_csv csv_files hdf5_file data_type inp)))"
    by (rule add_samples_invariant[of ?P, OF 0 keys_satisfy_True]) (rule step, assumption+)+
  then have c: "count_list (map fst (store (snd (add_samples_from_csv read_csv csv_files hdf5_file data_type inp)))) k
     = (if ?c0 k \<noteq> 0 then ?c0 k
        else if count_list (map fst (store (snd (add_samples_from_csv read_csv csv_files hdf5_file data_type inp)))) k \<noteq> 0
        then 1 else 0)"
    by blast
  have m1: "k \<in> set (sample_keys hdf5_file) \<longleftrightarrow> ?c0 k \<noteq> 0" by (rule member_count)
  have m2: "k \<in> set (map fst (store (snd (add_samples_from_csv read_csv csv_files hdf5_file data_type inp))))
     \<longleftrightarrow> count_list (map fst (store (snd (add_samples_from_csv read_csv csv_files hdf5_file data_type inp)))) k \<noteq> 0"
    by (rule member_count)
  show ?thesis unfolding m1 m2 by (rule c)
qed

lemma subseq_add_member: "subseq ms (add_member c n ms)"
  by (induction ms) auto

lemma plain_subseq:
  assumes "keys_satisfy plain_key (batch_rows read_csv csv_files)"
  shows "subseq (sample_groups hdf5_file)
           (store (snd (add_samples_from_csv read_csv csv_files hdf5_file data_type inp)))"
proof -
  let ?P = "\<lambda>gs. subseq (sample_groups hdf5_file) gs"
  have 0: "?P (sample_groups hdf5_file)" by simp
  show ?thesis
  proof (rule add_samples_invariant[of ?P, OF 0 assms])
    fix gs :: "(string \<times> 'a node) list" and k and xs :: "'a list" and as :: "(string \<times> string) list"
    assume P: "?P gs" and K: "plain_key k" and f: "find_path gs (path_components k) = Inr None"
    from f have "put_path (path_components k) (sample_group xs as) gs = add_member k (sample_group xs as) gs"
      unfolding path_components_plain[OF K] by (rule put_path_single)
    with P subseq_add_member[of gs k "sample_group xs as"]
    show "?P (put_path (path_components k) (sample_group xs as) gs)"
      by (auto intro: subseq_order.order_trans)
  next
    fix gs :: "(string \<times> 'a node) list" and k
    assume "plain_key k" "\<not> creatable k"
    then show "?P (put_path (path_components k) (Group [] []) gs)"
      by (simp add: creatable_plain)
  qed
qed

lemma plain_not_resolved:
  "plain_key k \<Longrightarrow> \<not> resolves gs (path_components k) \<Longrightarrow> k \<notin> set (map fst gs)"
  by (auto simp: path_components_plain resolves_def find_path_single map_of_eq_None_iff
      split: option.splits)

text \<open>
  Claim C1. A row whose key is already in the store, that is, whose path is found
  there, is skipped: the step reports the skip and changes neither the store, nor the
  list of inserted keys, nor the metadata flag, and reads no input. For a whole call,
  every object of the container is kept, a dataset as it is and a group with its
  attributes and members, and every new name in \<open>samples\<close> is there once; when the keys
  are link names the members that \<open>samples\<close> had are all there unchanged. No key returned
  was in the store before, and no two keys returned have the same path. Hence
  ingesting a batch a second time, after a call that returned, skips every row: it
  returns no key and leaves the store as it is.
\<close>

theorem duplicate_rows_skipped:
  "(map_of row ''time'' = Some t \<and> resolves (store s) (path_components (as_str t))
      \<longrightarrow> ingest_row row s = (None, s\<lparr>out := out s @ [SkippingDuplicate (as_str t)]\<rparr>))
   \<and> (find_path (sample_groups hdf5_file) q = Inr (Some n)
      \<longrightarrow> (\<exists>n'. find_path (store (snd (add_samples_from_csv read_csv csv_files hdf5_file data_type inp))) q
                   = Inr (Some n') \<and> keeps n n'))
   \<and> count_list (map fst (store (snd (add_samples_from_csv read_csv csv_files hdf5_file data_type inp)))) c
       = (if c \<in> set (sample_keys hdf5_file) then count_list (sample_keys hdf5_file) c
          else if c \<in> set (map fst (store (snd (add_samples_from_csv read_csv csv_files hdf5_file data_type inp))))
          then 1 else 0)
   \<and> (keys_satisfy plain_key (batch_rows read_csv csv_files)
      \<longrightarrow> subseq (sample_groups hdf5_file)
            (store (snd (add_samples_from_csv read_csv csv_files hdf5_file data_type inp))))
   \<and> (fst (add_samples_from_csv read_csv csv_files hdf5_file ''3'' inp) = Inr (ks, b)
      \<longrightarrow> distinct ks \<and> distinct (map path_components ks)
        \<and> list_all (\<lambda>k. \<not> resolves (sample_groups hdf5_file) (path_components k)) ks
        \<and> list_all (\<lambda>k. plain_key k \<longrightarrow> k \<notin> set (sample_keys hdf5_file)) ks
        \<and> add_samples_from_csv read_csv csv_files
            (file_after (snd (add_samples_from_csv read_csv csv_files hdf5_file ''3'' inp))) ''3'' inp2
          = (Inr ([], False),
             (initial_state (file_after (snd (add_samples_from_csv read_csv csv_files hdf5_file ''3'' inp))) inp2)
               \<lparr>out := skip_log read_csv csv_files\<rparr>))"
proof (intro conjI impI)
  assume "map_of row ''time'' = Some t \<and> resolves (store s) (path_components (as_str t))"
  then show "ingest_row row s = (None, s\<lparr>out := out s @ [SkippingDuplicate (as_str t)]\<rparr>)"
    by (simp add: ingest_row_duplicate)
next
  assume "find_path (sample_groups hdf5_file) q = Inr (Some n)"
  then show "\<exists>n'. find_path (store (snd (add_samples_from_csv read_csv csv_files hdf5_file data_type inp))) q
                   = Inr (Some n') \<and> keeps n n'"
    by (rule kept_objects)
next
  show "count_list (map fst (store (snd (add_samples_from_csv read_csv csv_files hdf5_file data_type inp)))) c
       = (if c \<in> set (sample_keys hdf5_file) then count_list (sample_keys hdf5_file) c
          else if c \<in> set (map fst (store (snd (add_samples_from_csv read_csv csv_files hdf5_file data_type inp))))
          then 1 else 0)"
    by (rule names_counted)
next
  assume "keys_satisfy plain_key (batch_rows read_csv csv_files)"
  then show "subseq (sample_groups hdf5_file)
            (store (snd (add_samples_from_csv read_csv csv_files hdf5_file data_type inp)))"
    by (rule plain_subseq)
next
  let ?run = "add_samples_from_csv read_csv csv_files hdf5_file ''3'' inp"
  let ?R = "resolves (sample_groups hdf5_file)"
  assume r: "fst ?run = Inr (ks, b)"
  obtain e s1 where f: "ingest_files read_csv ''3'' csv_files (initial_state hdf5_file inp) = (e, s1)"
    by (cases "ingest_files read_csv ''3'' csv_files (initial_state hdf5_file inp)")
  with r have e: "e = None" and s1: "snd ?run = s1"
    by (auto simp: add_samples_from_csv_def split: option.splits)
  from add_samples_inserts[OF r]
  have ks: "ks = fresh_keys ?R (map row_key (batch_rows read_csv csv_files))"
    unfolding inserts_def by (auto simp: initial_state_def)
  show dp: "distinct (map path_components ks)" unfolding ks by (rule fresh_keys_distinct)
  then show "distinct ks" by (simp add: distinct_map)
  show nr: "list_all (\<lambda>k. \<not> resolves (sample_groups hdf5_file) (path_components k)) ks"
    unfolding ks list_all_iff using fresh_keys_not_occupied[of _ ?R] by blast
  then show "list_all (\<lambda>k. plain_key k \<longrightarrow> k \<notin> set (sample_keys hdf5_file)) ks"
    unfolding list_all_iff sample_keys_def using plain_not_resolved by blast
  from ingest_files_stored[OF f[unfolded e]]
  have st: "list_all (readable read_csv) csv_files"
    "list_all (stored_row (store (initial_state (file_after s1) inp2))) (batch_rows read_csv csv_files)"
    by (simp_all add: initial_state_def file_after_def)
  have "add_samples_from_csv read_csv csv_files (file_after s1) ''3'' inp2
          = (Inr ([], False), (initial_state (file_after s1) inp2)\<lparr>out := skip_log read_csv csv_files\<rparr>)"
    unfolding add_samples_from_csv_def ingest_files_all_stored[OF st]
    by (simp add: initial_state_def)
  then show "add_samples_from_csv read_csv csv_files (file_after (snd ?run)) ''3'' inp2
          = (Inr ([], False), (initial_state (file_after (snd ?run)) inp2)\<lparr>out := skip_log read_csv csv_files\<rparr>)"
    unfolding s1 .
qed

theorem duplicate_rows_skipped_witness:
  "map_of (as7341_row ''T2'') ''time'' = Some (Cell ''T2'' None)
   \<and> resolves (store (initial_state stored_T2 [''y''])) (path_components (as_str (Cell ''T2'' None :: int cell)))
   \<and> ingest_row (as7341_row ''T2'') (initial_state stored_T2 [''y''])
       = (None, (initial_state stored_T2 [''y''])
                  \<lparr>out := out (initial_state stored_T2 [''y'']) @ [SkippingDuplicate (as_str (Cell ''T2'' None :: int cell))]\<rparr>)
   \<and> find_path (sample_groups stored_T2) [''T2'', ''Intensities''] = Inr (Some (Dataset (FloatArr [1, 2, 3, 4, 5, 6, 7, 8, 9, 10])))
   \<and> find_path (store (snd (add_samples_from_csv example_fs [''good.csv''] stored_T2 ''3'' [''n'', ''n''])))
        [''T2'', ''Intensities''] = Inr (Some (Dataset (FloatArr [1, 2, 3, 4, 5, 6, 7, 8, 9, 10])))
   \<and> keys_satisfy plain_key (batch_rows example_fs [''twice.csv''])
   \<and> fst (add_samples_from_csv example_fs [''twice.csv''] None ''3'' [''n'']) = Inr ([''T1''], False)
   \<and> store (snd (add_samples_from_csv example_fs [''twice.csv''] None ''3'' [''n''])) = [(''T1'', written_group ''T1'')]
   \<and> add_samples_from_csv example_fs [''twice.csv'']
        (file_after (snd (add_samples_from_csv example_fs [''twice.csv''] None ''3'' [''n'']))) ''3'' [''y'']
      = (Inr ([], False),
         (initial_state (file_after (snd (add_samples_from_csv example_fs [''twice.csv''] None ''3'' [''n'']))) [''y''])
           \<lparr>out := skip_log example_fs [''twice.csv'']\<rparr>)"
proof -
  have h1: "map_of (as7341_row ''T2'') ''time'' = Some (Cell ''T2'' None)
     \<and> resolves (store (initial_state stored_T2 [''y''])) (path_components (as_str (Cell ''T2'' None :: int cell)))"
    by code_simp
  have h2: "fst (add_samples_from_csv example_fs [''twice.csv''] None ''3'' [''n'']) = Inr ([''T1''], False)"
    by code_simp
  have h3: "store (snd (add_samples_from_csv example_fs [''twice.csv''] None ''3'' [''n''])) = [(''T1'', written_group ''T1'')]"
    by code_simp
  have h4: "find_path (sample_groups stored_T2) [''T2'', ''Intensities''] = Inr (Some (Dataset (FloatArr [1, 2, 3, 4, 5, 6, 7, 8, 9, 10])))"
    by code_simp
  have h5: "keys_satisfy plain_key (batch_rows example_fs [''twice.csv''])" by code_simp
  from duplicate_rows_skipped[of "as7341_row ''T2''" "Cell ''T2'' None" "initial_state stored_T2 [''y'']"
      stored_T2 "[''T2'', ''Intensities'']" "Dataset (FloatArr [1, 2, 3, 4, 5, 6, 7, 8, 9, 10])"
      example_fs "[''good.csv'']" "''3''" "[''n'', ''n'']"] h1 h4
  have a: "ingest_row (as7341_row ''T2'') (initial_state stored_T2 [''y''])
       = (None, (initial_state stored_T2 [''y''])
                  \<lparr>out := out (initial_state stored_T2 [''y'']) @ [SkippingDuplicate (as_str (Cell ''T2'' None :: int cell))]\<rparr>)"
    and b: "\<exists>n'. find_path (store (snd (add_samples_from_csv example_fs [''good.csv''] stored_T2 ''3'' [''n'', ''n''])))
        [''T2'', ''Intensities''] = Inr (Some n') \<and> keeps (Dataset (FloatArr [1, 2, 3, 4, 5, 6, 7, 8, 9, 10])) n'"
    by blast+
  from b have b': "find_path (store (snd (add_samples_from_csv example_fs [''good.csv''] stored_T2 ''3'' [''n'', ''n''])))
        [''T2'', ''Intensities''] = Inr (Some (Dataset (FloatArr [1, 2, 3, 4, 5, 6, 7, 8, 9, 10])))"
    by (auto simp: keeps_def)
  from duplicate_rows_skipped[of _ _ _ None _ _ example_fs "[''twice.csv'']" "''3''" "[''n'']" _
      "[''T1'']" False "[''y'']"] h2
  have c: "add_samples_from_csv example_fs [''twice.csv'']
        (file_after (snd (add_samples_from_csv example_fs [''twice.csv''] None ''3'' [''n'']))) ''3'' [''y'']
      = (Inr ([], False),
         (initial_state (file_after (snd (add_samples_from_csv example_fs [''twice.csv''] None ''3'' [''n'']))) [''y''])
           \<lparr>out := skip_log example_fs [''twice.csv'']\<rparr>)"
    by blast
  from h1 a h4 b' h5 h2 h3 c show ?thesis by blast
qed

section \<open>Requested keys that are not found\<close>








end
